theory Spec2Isabelle
  imports Complex_Main "HOL-Library.Word"
begin

section \<open>Numbers of the source language\<close>

text \<open>
  The detector computes with JavaScript numbers.  A number is modelled as a real (the
  finite values, taken without rounding) or one of the three special values that the
  program can produce and that decide its control flow: \<open>Infinity\<close>, \<open>-Infinity\<close> and
  \<open>NaN\<close>.  The model has one zero: the program's comparisons do not tell \<open>-0\<close> from
  \<open>+0\<close>, and a division by a zero that could be negative only occurs where both signs
  of the quotient lead to the same branch (noted at \<open>candidateBins\<close>).

  Every comparison with \<open>NaN\<close> is false, \<open>0 / 0\<close> is \<open>NaN\<close>, and a non-zero number
  divided by zero is infinite; HOL's own \<open>x / 0 = 0\<close> is never used for a source division.
\<close>

datatype number = Num real | PosInf | NegInf | NaN

fun nneg :: "number \<Rightarrow> number" where
  "nneg (Num a) = Num (- a)"
| "nneg PosInf = NegInf"
| "nneg NegInf = PosInf"
| "nneg NaN = NaN"

fun nplus :: "number \<Rightarrow> number \<Rightarrow> number" where
  "nplus (Num a) (Num b) = Num (a + b)"
| "nplus NaN _ = NaN"
| "nplus _ NaN = NaN"
| "nplus PosInf NegInf = NaN"
| "nplus NegInf PosInf = NaN"
| "nplus PosInf _ = PosInf"
| "nplus _ PosInf = PosInf"
| "nplus NegInf _ = NegInf"
| "nplus _ NegInf = NegInf"

definition nminus :: "number \<Rightarrow> number \<Rightarrow> number" where
  "nminus a b = nplus a (nneg b)"

definition signedInf :: "bool \<Rightarrow> number" where
  "signedInf positive = (if positive then PosInf else NegInf)"

fun ntimes :: "number \<Rightarrow> number \<Rightarrow> number" where
  "ntimes (Num a) (Num b) = Num (a * b)"
| "ntimes NaN _ = NaN"
| "ntimes _ NaN = NaN"
| "ntimes PosInf (Num b) = (if b = 0 then NaN else signedInf (0 < b))"
| "ntimes NegInf (Num b) = (if b = 0 then NaN else signedInf (b < 0))"
| "ntimes (Num a) PosInf = (if a = 0 then NaN else signedInf (0 < a))"
| "ntimes (Num a) NegInf = (if a = 0 then NaN else signedInf (a < 0))"
| "ntimes PosInf PosInf = PosInf"
| "ntimes NegInf NegInf = PosInf"
| "ntimes PosInf NegInf = NegInf"
| "ntimes NegInf PosInf = NegInf"

fun ndiv :: "number \<Rightarrow> number \<Rightarrow> number" where
  "ndiv (Num a) (Num b) =
     (if b = 0 then (if a = 0 then NaN else signedInf (0 < a)) else Num (a / b))"
| "ndiv NaN _ = NaN"
| "ndiv _ NaN = NaN"
| "ndiv (Num a) _ = Num 0"
| "ndiv PosInf (Num b) = signedInf (0 \<le> b)"
| "ndiv NegInf (Num b) = signedInf (b < 0)"
| "ndiv _ _ = NaN"

text \<open>The relational operators \<open><\<close>, \<open>>\<close> and \<open><=\<close>.\<close>

fun nless :: "number \<Rightarrow> number \<Rightarrow> bool" where
  "nless (Num a) (Num b) = (a < b)"
| "nless NaN _ = False"
| "nless _ NaN = False"
| "nless PosInf _ = False"
| "nless _ NegInf = False"
| "nless _ _ = True"

definition ngreater :: "number \<Rightarrow> number \<Rightarrow> bool" where
  "ngreater a b = nless b a"

definition nle :: "number \<Rightarrow> number \<Rightarrow> bool" where
  "nle a b = (a \<noteq> NaN \<and> b \<noteq> NaN \<and> \<not> nless b a)"

definition nge :: "number \<Rightarrow> number \<Rightarrow> bool" where
  "nge a b = nle b a"

text \<open>\<open>Math.min\<close>, \<open>Math.max\<close>, \<open>Math.abs\<close>, \<open>Math.floor\<close>, \<open>Math.round\<close> (halves go up),
  \<open>Math.log2\<close>, \<open>Math.exp\<close>, and \<open>Math.pow\<close> for a finite base above 1, the only kind
  of base the program raises to a power.\<close>

definition nmin :: "number \<Rightarrow> number \<Rightarrow> number" where
  "nmin a b = (if a = NaN \<or> b = NaN then NaN else if nless b a then b else a)"

definition nmax :: "number \<Rightarrow> number \<Rightarrow> number" where
  "nmax a b = (if a = NaN \<or> b = NaN then NaN else if nless a b then b else a)"

fun nabs :: "number \<Rightarrow> number" where
  "nabs (Num a) = Num \<bar>a\<bar>"
| "nabs NaN = NaN"
| "nabs _ = PosInf"

fun nfloor :: "number \<Rightarrow> number" where
  "nfloor (Num a) = Num (of_int \<lfloor>a\<rfloor>)"
| "nfloor x = x"

fun nround :: "number \<Rightarrow> number" where
  "nround (Num a) = Num (of_int \<lfloor>a + 1 / 2\<rfloor>)"
| "nround x = x"

fun nlog2 :: "number \<Rightarrow> number" where
  "nlog2 (Num a) = (if 0 < a then Num (log 2 a) else if a = 0 then NegInf else NaN)"
| "nlog2 PosInf = PosInf"
| "nlog2 _ = NaN"

fun nexp :: "number \<Rightarrow> number" where
  "nexp (Num a) = Num (exp a)"
| "nexp PosInf = PosInf"
| "nexp NegInf = Num 0"
| "nexp NaN = NaN"

fun npow :: "real \<Rightarrow> number \<Rightarrow> number" where
  "npow b (Num y) = Num (b powr y)"
| "npow b PosInf = PosInf"
| "npow b NegInf = Num 0"
| "npow b NaN = NaN"

text \<open>The remainder operator \<open>%\<close>: the quotient is truncated towards zero, so the result
  has the sign of the dividend.\<close>

definition trunc :: "real \<Rightarrow> int" where
  "trunc x = (if 0 \<le> x then \<lfloor>x\<rfloor> else \<lceil>x\<rceil>)"

fun nrem :: "number \<Rightarrow> number \<Rightarrow> number" where
  "nrem (Num a) (Num b) = (if b = 0 then NaN else Num (a - b * of_int (trunc (a / b))))"
| "nrem NaN _ = NaN"
| "nrem _ NaN = NaN"
| "nrem (Num a) _ = Num a"
| "nrem _ _ = NaN"

text \<open>Reading \<open>xs[i]\<close> where the index is a number: outside the array, or at an index
  that is not a non-negative integer, the value is \<open>undefined\<close> (\<open>None\<close>); nothing is
  thrown.\<close>

fun elementAt :: "'a list \<Rightarrow> number \<Rightarrow> 'a option" where
  "elementAt xs (Num r) =
     (if 0 \<le> r \<and> r = of_int \<lfloor>r\<rfloor> \<and> nat \<lfloor>r\<rfloor> < length xs then Some (xs ! nat \<lfloor>r\<rfloor>) else None)"
| "elementAt xs _ = None"

section \<open>Data model\<close>

text \<open>A \<open>ChordNote\<close> as the detector builds it.  The name is a string, or \<open>undefined\<close>
  (\<open>None\<close>) when it was read from the name table at an index that is not in it.\<close>

record ChordNote =
  name :: "string option"
  octave :: number
  frequency :: number

section \<open>Note mapper: \<open>findClosestNote\<close>\<close>

text \<open>
  The function is straight-line code.  Its one array read, \<open>noteNames[noteIndex]\<close>,
  yields \<open>undefined\<close> at an index that is not in the table, so nothing in it can throw
  and it is a function from numbers to notes.

  The finite numbers of the model are exact.  The program rounds the quotient
  \<open>frequency / 440\<close> and the results of \<open>Math.log2\<close> and \<open>Math.pow\<close> (whose accuracy the
  language leaves to the implementation); for the smallest positive frequencies its
  quotient underflows to 0, and for the largest its retuned frequency overflows.  The
  statements about \<open>findClosestNote\<close> below are therefore made either at an input where
  every step of the program is exact (440) or of properties that rounding, underflow
  and overflow leave as they are: which branch is taken, and whether the result is the
  sentinel.
\<close>

definition noteNames :: "string list" where
  "noteNames = [''A'', ''A#/Bb'', ''B'', ''C'', ''C#/Db'', ''D'', ''D#/Eb'', ''E'', ''F'',
                ''F#/Gb'', ''G'', ''G#/Ab'']"

definition unknownNote :: ChordNote where
  "unknownNote = \<lparr>ChordNote.name = Some ''Unknown'', octave = Num 0, frequency = Num 0\<rparr>"

definition findClosestNote :: "number \<Rightarrow> ChordNote" where
  "findClosestNote freq =
     (if nle freq (Num 0) then unknownNote
      else
        let a4 = Num 440;
            halfStepRatio = 2 powr (1 / 12);
            exactHalfSteps = ntimes (Num 12) (nlog2 (ndiv freq a4));
            roundedHalfSteps = nround exactHalfSteps;
            closestFrequency = ntimes a4 (npow halfStepRatio roundedHalfSteps);
            octave = nfloor (ndiv (nplus roundedHalfSteps (Num 57)) (Num 12));
            noteIndex = nrem (nplus (nrem (nplus roundedHalfSteps (Num 57)) (Num 12)) (Num 12))
                             (Num 12)
        in \<lparr>ChordNote.name = elementAt noteNames noteIndex, octave = octave,
             frequency = closestFrequency\<rparr>)"

section \<open>Chord matcher: \<open>identifyChord\<close>\<close>

text \<open>
  The only failure the detector's code can run into is reading a property of
  \<open>undefined\<close>, which throws a \<open>TypeError\<close>.  Each place where the source reads
  a property of a value that an array lookup produced is a branch of the model.
\<close>

datatype error = TypeError

subsection \<open>Strings and arrays\<close>

text \<open>\<open>s.includes('/')\<close>, \<open>s.split('/')\<close> and \<open>s.split('/')[0]\<close>.\<close>

definition includesSlash :: "string \<Rightarrow> bool" where
  "includesSlash s = (CHR ''/'' \<in> set s)"

fun splitSlash :: "string \<Rightarrow> string list" where
  "splitSlash [] = [[]]"
| "splitSlash (c # cs) =
     (if c = CHR ''/'' then [] # splitSlash cs
      else (case splitSlash cs of [] \<Rightarrow> [[c]] | p # ps \<Rightarrow> (c # p) # ps))"

definition firstPart :: "string \<Rightarrow> string" where
  "firstPart s = (case splitSlash s of [] \<Rightarrow> [] | p # _ \<Rightarrow> p)"

text \<open>\<open>parts.join('-')\<close>.\<close>

fun joinDash :: "string list \<Rightarrow> string" where
  "joinDash [] = []"
| "joinDash [x] = x"
| "joinDash (x # y # zs) = x @ ''-'' @ joinDash (y # zs)"

text \<open>A name that may be \<open>undefined\<close>: its truthiness (\<open>filter(Boolean)\<close>), and \<open>v || ''\<close>.\<close>

definition truthy :: "string option \<Rightarrow> bool" where
  "truthy v = (case v of None \<Rightarrow> False | Some s \<Rightarrow> s \<noteq> [])"

definition orEmpty :: "string option \<Rightarrow> string" where
  "orEmpty v = (case v of None \<Rightarrow> [] | Some s \<Rightarrow> s)"

text \<open>\<open>s.includes('/') ? s.split('/') : [s]\<close>, the spellings of a name.\<close>

definition variantsOf :: "string \<Rightarrow> string list" where
  "variantsOf s = (if includesSlash s then splitSlash s else [s])"

text \<open>\<open>xs[i]\<close> for a loop index, \<open>xs.findIndex(p)\<close> (\<open>None\<close> for \<open>-1\<close>), and
  \<open>Array.from(new Set(xs))\<close>, which keeps the first occurrence of each value.\<close>

definition lookup :: "'a list \<Rightarrow> nat \<Rightarrow> 'a option" where
  "lookup xs i = (if i < length xs then Some (xs ! i) else None)"

fun findIndex :: "('a \<Rightarrow> bool) \<Rightarrow> 'a list \<Rightarrow> nat option" where
  "findIndex p [] = None"
| "findIndex p (x # xs) =
     (if p x then Some 0 else (case findIndex p xs of None \<Rightarrow> None | Some i \<Rightarrow> Some (Suc i)))"

fun uniqueInOrder :: "'a list \<Rightarrow> 'a list \<Rightarrow> 'a list" where
  "uniqueInOrder seen [] = []"
| "uniqueInOrder seen (x # xs) =
     (if x \<in> set seen then uniqueInOrder seen xs else x # uniqueInOrder (x # seen) xs)"

text \<open>
  \<open>xs.sort(cmp)\<close>.  The sort of the language is stable and puts \<open>a\<close> after \<open>b\<close> when
  \<open>cmp(a, b) > 0\<close>; for a comparator that orders the elements consistently every stable
  sort gives the list below.  Where a key is \<open>NaN\<close> the comparator is not consistent and
  the language leaves the order to the implementation; the model then has the order of
  its insertion sort, and no statement below depends on it.
\<close>

fun insertSorted :: "('a \<Rightarrow> 'a \<Rightarrow> number) \<Rightarrow> 'a \<Rightarrow> 'a list \<Rightarrow> 'a list" where
  "insertSorted cmp x [] = [x]"
| "insertSorted cmp x (y # ys) =
     (if ngreater (cmp x y) (Num 0) then y # insertSorted cmp x ys else x # y # ys)"

definition arraySort :: "('a \<Rightarrow> 'a \<Rightarrow> number) \<Rightarrow> 'a list \<Rightarrow> 'a list" where
  "arraySort cmp xs = foldr (insertSorted cmp) xs []"

text \<open>
  \<open>Object.entries(obj)\<close> for an object literal.  The language enumerates the keys that
  are array indices (canonical decimal numerals below \<open>2^32 - 1\<close>) first, in ascending
  numeric order, and the other string keys after them, in the order they were written.
\<close>

definition isDigit :: "char \<Rightarrow> bool" where
  "isDigit c = (c \<in> set ''0123456789'')"

definition digitsValue :: "string \<Rightarrow> nat" where
  "digitsValue k = foldl (\<lambda>v c. 10 * v + (of_char c - 48)) 0 k"

definition isArrayIndex :: "string \<Rightarrow> bool" where
  "isArrayIndex k =
     (case k of [] \<Rightarrow> False
      | c # cs \<Rightarrow> list_all isDigit k \<and> (if c = CHR ''0'' then cs = [] else True) \<and>
                 digitsValue k < 4294967295)"

definition objectEntries :: "(string \<times> 'a) list \<Rightarrow> (string \<times> 'a) list" where
  "objectEntries literal =
     sort_key (\<lambda>e. digitsValue (fst e)) (filter (\<lambda>e. isArrayIndex (fst e)) literal) @
     filter (\<lambda>e. \<not> isArrayIndex (fst e)) literal"

subsection \<open>Tables\<close>

text \<open>\<open>CHORD_FORMULAS\<close>, in the order of the object literal.\<close>

definition CHORD_FORMULAS :: "(string \<times> string list) list" where
  "CHORD_FORMULAS =
     [('''', [''1'', ''3'', ''5'']),
      (''m'', [''1'', ''b3'', ''5'']),
      (''7'', [''1'', ''3'', ''5'', ''b7'']),
      (''maj7'', [''1'', ''3'', ''5'', ''7'']),
      (''m7'', [''1'', ''b3'', ''5'', ''b7'']),
      (''dim'', [''1'', ''b3'', ''b5'']),
      (''aug'', [''1'', ''3'', ''#5'']),
      (''sus4'', [''1'', ''4'', ''5'']),
      (''sus2'', [''1'', ''2'', ''5'']),
      (''6'', [''1'', ''3'', ''5'', ''6'']),
      (''m6'', [''1'', ''b3'', ''5'', ''6''])]"

text \<open>The two tables local to \<open>calculateChordNotes\<close>.\<close>

definition sharpNoteNames :: "string list" where
  "sharpNoteNames = [''C'', ''C#'', ''D'', ''D#'', ''E'', ''F'', ''F#'', ''G'', ''G#'', ''A'',
                     ''A#'', ''B'']"

definition intervalToSemitones :: "(string \<times> nat) list" where
  "intervalToSemitones =
     [(''1'', 0), (''b2'', 1), (''2'', 2), (''b3'', 3), (''3'', 4), (''4'', 5), (''b5'', 6),
      (''5'', 7), (''#5'', 8), (''6'', 9), (''b7'', 10), (''7'', 11)]"

definition essentialIntervals :: "string list" where
  "essentialIntervals = [''1'', ''3'', ''b3'', ''5'']"

subsection \<open>\<open>calculateChordNotes\<close>\<close>

text \<open>An interval that is not in the table has the semitone count \<open>undefined\<close>, the
  index \<open>NaN\<close> and therefore the note \<open>undefined\<close>.\<close>

definition calculateChordNotes :: "string \<Rightarrow> string list \<Rightarrow> string option list" where
  "calculateChordNotes rootNote formula =
     (if rootNote = [] then []
      else
        let root = (if includesSlash rootNote then firstPart rootNote else rootNote)
        in case findIndex (\<lambda>note. note = root) sharpNoteNames of
             None \<Rightarrow> []
           | Some rootIndex \<Rightarrow>
               map (\<lambda>interval.
                      case map_of intervalToSemitones interval of
                        None \<Rightarrow> None
                      | Some semitones \<Rightarrow> lookup sharpNoteNames ((rootIndex + semitones) mod 12))
                   formula)"

subsection \<open>Scoring one (root, template) pair\<close>

record NoteInfo =
  name :: "string option"
  frequency :: number
  weight :: number

definition noteInfoOf :: "ChordNote \<Rightarrow> NoteInfo" where
  "noteInfoOf note =
     \<lparr>NoteInfo.name = ChordNote.name note, frequency = ChordNote.frequency note,
      weight = ndiv (Num 1) (nmax (ChordNote.frequency note) (Num 80))\<rparr>"

definition noteMatched :: "string option list \<Rightarrow> string option \<Rightarrow> bool" where
  "noteMatched expectedNotes baseNote =
     list_ex (\<lambda>variant. Some variant \<in> set expectedNotes) (variantsOf (orEmpty baseNote))"

text \<open>The loop over \<open>i < baseNotes.length\<close>, carrying \<open>score\<close> and \<open>matchedNotes\<close>.\<close>

fun scoreNotes ::
  "NoteInfo list \<Rightarrow> string option list \<Rightarrow> string option list \<Rightarrow> nat list \<Rightarrow>
   number \<times> nat \<Rightarrow> error + (number \<times> nat)" where
  "scoreNotes noteInfo baseNotes expectedNotes [] acc = Inr acc"
| "scoreNotes noteInfo baseNotes expectedNotes (i # rest) acc =
     (case lookup noteInfo i of
        None \<Rightarrow> Inl TypeError
      | Some info \<Rightarrow>
          if noteMatched expectedNotes (Option.bind (lookup baseNotes i) id)
          then scoreNotes noteInfo baseNotes expectedNotes rest
                 (nplus (fst acc) (ntimes (NoteInfo.weight info) (Num 2)), snd acc + 1)
          else scoreNotes noteInfo baseNotes expectedNotes rest
                 (nminus (fst acc) (ntimes (NoteInfo.weight info) (Num (1 / 2))), snd acc))"

definition intervalFound :: "string option list \<Rightarrow> string \<Rightarrow> string \<Rightarrow> bool" where
  "intervalFound baseNotes rootName interval =
     (case calculateChordNotes rootName [interval] of
        Some noteForInterval # _ \<Rightarrow>
          noteForInterval \<noteq> [] \<and>
          list_ex (\<lambda>note. noteForInterval \<in> set (variantsOf (orEmpty note))) baseNotes
      | _ \<Rightarrow> False)"

definition missingEssential :: "string option list \<Rightarrow> string \<Rightarrow> string list \<Rightarrow> nat" where
  "missingEssential baseNotes rootName formula =
     length (filter (\<lambda>interval. interval \<in> set essentialIntervals \<and>
                                \<not> intervalFound baseNotes rootName interval) formula)"

definition scoreCandidate ::
  "NoteInfo list \<Rightarrow> string option list \<Rightarrow> string \<Rightarrow> string list \<Rightarrow> error + (number \<times> nat)" where
  "scoreCandidate noteInfo baseNotes rootName formula =
     (case scoreNotes noteInfo baseNotes (calculateChordNotes rootName formula)
             [0 ..< length baseNotes] (Num 0, 0) of
        Inl e \<Rightarrow> Inl e
      | Inr (score, matchedNotes) \<Rightarrow>
          Inr (nminus score (Num (of_nat (missingEssential baseNotes rootName formula * 2))),
               matchedNotes))"

subsection \<open>The search\<close>

text \<open>The running best match: \<open>bestMatchScore\<close>, \<open>bestMatchName\<close>, \<open>bestMatchFormula\<close>.\<close>

type_synonym best = "number \<times> string \<times> string"

definition tryTemplate ::
  "NoteInfo list \<Rightarrow> string option list \<Rightarrow> string \<Rightarrow> string \<times> string list \<Rightarrow> best \<Rightarrow>
   error + best" where
  "tryTemplate noteInfo baseNotes rootName entry best =
     (case scoreCandidate noteInfo baseNotes rootName (snd entry) of
        Inl e \<Rightarrow> Inl e
      | Inr (score, matchedNotes) \<Rightarrow>
          Inr (if min 2 (length (snd entry)) \<le> matchedNotes \<and> ngreater score (fst best)
               then (score, rootName @ fst entry, joinDash (snd entry))
               else best))"

text \<open>A \<open>for ... of\<close> loop whose body may throw.\<close>

fun forEach :: "('a \<Rightarrow> 's \<Rightarrow> error + 's) \<Rightarrow> 'a list \<Rightarrow> 's \<Rightarrow> error + 's" where
  "forEach body [] s = Inr s"
| "forEach body (x # xs) s = (case body x s of Inl e \<Rightarrow> Inl e | Inr s' \<Rightarrow> forEach body xs s')"

definition rootVariants :: "string option \<Rightarrow> string list" where
  "rootVariants rootNote =
     (case rootNote of
        None \<Rightarrow> [[]]
      | Some s \<Rightarrow> if s \<noteq> [] \<and> includesSlash s then splitSlash s else [s])"

definition sortedNoteInfo :: "ChordNote list \<Rightarrow> NoteInfo list" where
  "sortedNoteInfo notes =
     arraySort (\<lambda>a b. nminus (NoteInfo.weight b) (NoteInfo.weight a)) (map noteInfoOf notes)"

definition rootsToTry :: "NoteInfo list \<Rightarrow> string option list" where
  "rootsToTry noteInfo =
     (let baseNotes = map NoteInfo.name noteInfo;
          potentialRoots = map NoteInfo.name (take 3 noteInfo) @ drop 3 baseNotes
      in uniqueInOrder [] (filter truthy potentialRoots))"

definition searchBest :: "NoteInfo list \<Rightarrow> error + best" where
  "searchBest noteInfo =
     (let baseNotes = map NoteInfo.name noteInfo
      in forEach
           (\<lambda>rootNote.
              forEach
                (\<lambda>rootName. forEach (tryTemplate noteInfo baseNotes rootName) (objectEntries CHORD_FORMULAS))
                (rootVariants rootNote))
           (rootsToTry noteInfo) (Num (- 1), [], []))"

text \<open>The result of \<open>identifyChord\<close> is the pair of \<open>name\<close> and \<open>formula\<close>.\<close>

definition identifyChord :: "ChordNote list \<Rightarrow> error + (string \<times> string)" where
  "identifyChord notes =
     (case notes of
        [] \<Rightarrow> Inr ([], [])
      | [note] \<Rightarrow>
          (case ChordNote.name note of
             None \<Rightarrow> Inl TypeError
           | Some s \<Rightarrow> Inr (firstPart s, ''1''))
      | first # _ \<Rightarrow>
          (case searchBest (sortedNoteInfo notes) of
             Inl e \<Rightarrow> Inl e
           | Inr best \<Rightarrow>
               if ngreater (fst best) (Num 0) then Inr (snd best)
               else
                 let noteName = orEmpty (ChordNote.name first);
                     cleanName = (if includesSlash noteName then firstPart noteName else noteName)
                 in Inr (cleanName, ''1'')))"


text \<open>
  The candidates of the search in the order the three nested loops visit them, and
  whether some candidate is eligible (it matches at least \<open>min(2, formula.length)\<close>
  notes) with a positive score.  \<open>searchBest\<close> is shown below to be the loop over this
  list.
\<close>

definition candidates :: "NoteInfo list \<Rightarrow> (string \<times> string \<times> string list) list" where
  "candidates noteInfo =
     concat (map (\<lambda>rootNote.
                    concat (map (\<lambda>rootName. map (\<lambda>entry. (rootName, entry))
                                                 (objectEntries CHORD_FORMULAS))
                                (rootVariants rootNote)))
                 (rootsToTry noteInfo))"

definition positiveMatch :: "NoteInfo list \<Rightarrow> string \<times> string \<times> string list \<Rightarrow> bool" where
  "positiveMatch noteInfo candidate =
     (case scoreCandidate noteInfo (map NoteInfo.name noteInfo) (fst candidate)
             (snd (snd candidate)) of
        Inl e \<Rightarrow> False
      | Inr (score, matchedNotes) \<Rightarrow>
          min 2 (length (snd (snd candidate))) \<le> matchedNotes \<and> ngreater score (Num 0))"

definition somePositiveMatch :: "ChordNote list \<Rightarrow> bool" where
  "somePositiveMatch notes =
     list_ex (positiveMatch (sortedNoteInfo notes)) (candidates (sortedNoteInfo notes))"

section \<open>Peak finder: \<open>findFrequencyPeaks\<close>\<close>

text \<open>The spectrum is a \<open>Uint8Array\<close>.  An element read at an index outside the array
  is \<open>undefined\<close>, which enters every comparison and every arithmetic operation of the
  peak finder as \<open>NaN\<close>.\<close>

definition byteAt :: "8 word list \<Rightarrow> int \<Rightarrow> number" where
  "byteAt xs i =
     (if 0 \<le> i \<and> i < int (length xs) then Num (real (unat (xs ! nat i))) else NaN)"

text \<open>\<open>isDataMostlySilent\<close>: the sum of the bytes is an integer and exact; the average
  of the empty spectrum is \<open>0 / 0\<close>.\<close>

definition isDataMostlySilent :: "8 word list \<Rightarrow> bool" where
  "isDataMostlySilent frequencyData =
     (let threshold = Num 10;
          total = foldl (\<lambda>acc x. acc + unat x) 0 frequencyData;
          average = ndiv (Num (real total)) (Num (real (length frequencyData)))
      in nless average threshold)"

text \<open>The smoothing loop fills the bins \<open>3 \<le> i < length - 3\<close> of a fresh, zeroed
  \<open>Uint8Array\<close> with \<open>floor(sum / 7)\<close> of the seven bins around \<open>i\<close>; the store converts
  to 8 bits.\<close>

definition windowSize :: nat where
  "windowSize = 3"

definition smoothedData :: "8 word list \<Rightarrow> 8 word list" where
  "smoothedData frequencyData =
     map (\<lambda>i. if windowSize \<le> i \<and> i + windowSize < length frequencyData
               then of_nat (sum_list (map (\<lambda>j. unat (frequencyData ! j))
                                          [i - windowSize ..< i + windowSize + 1])
                            div (windowSize * 2 + 1))
               else 0)
         [0 ..< length frequencyData]"

text \<open>\<open>getThreshold\<close>, with \<open>minBin\<close> made a parameter.  (\<open>getMinPeakDistance\<close> is
  computed by the source for every candidate, but its result is never used.)\<close>

definition getThreshold :: "number \<Rightarrow> number \<Rightarrow> number" where
  "getThreshold minBin bin =
     nplus (Num 15) (ntimes (Num 30) (nexp (ndiv (nneg bin) (ntimes minBin (Num 2)))))"

text \<open>
  The values of \<open>i\<close> in \<open>for (let i = minBin; i < bound; i++)\<close>.  When both numbers are
  finite these are the integers from \<open>minBin\<close> (an integer, the result of \<open>Math.floor\<close>)
  up to, and not including, \<open>bound\<close>.  When \<open>minBin\<close> or \<open>bound\<close> is \<open>NaN\<close>, when
  \<open>minBin\<close> is \<open>Infinity\<close> or when \<open>bound\<close> is \<open>-Infinity\<close>, the loop condition is false at
  once.  The two remaining combinations do not arise: the bound is the minimum with a
  finite number and so never \<open>Infinity\<close> (\<open>bound_not_PosInf\<close>), and \<open>minBin\<close> is
  \<open>-Infinity\<close> only for a bin size of \<open>-0\<close>, for which \<open>maxBin\<close> and the bound are
  \<open>-Infinity\<close> too and the condition is false at once; in the model, which has one
  zero, a bin size of zero gives \<open>Infinity\<close> and the same empty loop.
\<close>

fun candidateBins :: "number \<Rightarrow> number \<Rightarrow> int list" where
  "candidateBins (Num a) (Num b) = [\<lfloor>a\<rfloor> .. \<lceil>b\<rceil> - 1]"
| "candidateBins _ _ = []"

definition isCandidate :: "8 word list \<Rightarrow> number \<Rightarrow> int \<Rightarrow> bool" where
  "isCandidate smoothed minBin i =
     (ngreater (byteAt smoothed i) (getThreshold minBin (Num (of_int i))) \<and>
      ngreater (byteAt smoothed i) (byteAt smoothed (i - 1)) \<and>
      ngreater (byteAt smoothed i) (byteAt smoothed (i + 1)))"

text \<open>The search for "the actual peak": \<open>peakBin\<close> and \<open>peakValue\<close> start at the
  candidate bin and its \<^emph>\<open>smoothed\<close> value, and the raw values of the bins \<open>i - 1\<close>,
  \<open>i\<close>, \<open>i + 1\<close> replace them where they are greater.\<close>

definition findActualPeak :: "8 word list \<Rightarrow> 8 word list \<Rightarrow> int \<Rightarrow> int \<times> number" where
  "findActualPeak frequencyData smoothed i =
     foldl (\<lambda>acc j. if ngreater (byteAt frequencyData j) (snd acc)
                     then (j, byteAt frequencyData j) else acc)
           (i, byteAt smoothed i) [i - 1, i, i + 1]"

text \<open>Parabolic interpolation around \<open>peakBin\<close>, clamped to half a bin.\<close>

definition refinedFrequencyAt :: "8 word list \<Rightarrow> number \<Rightarrow> int \<Rightarrow> number" where
  "refinedFrequencyAt frequencyData binSize peakBin =
     (let alpha = byteAt frequencyData (peakBin - 1);
          beta = byteAt frequencyData peakBin;
          gamma = byteAt frequencyData (peakBin + 1);
          peakOffset = ndiv (ntimes (Num (1 / 2)) (nminus alpha gamma))
                            (nplus (nminus alpha (ntimes (Num 2) beta)) gamma);
          clamped = nmax (Num (- (1 / 2))) (nmin (Num (1 / 2)) peakOffset)
      in ntimes (nplus (Num (of_int peakBin)) clamped) binSize)"

record Peak =
  frequency :: number
  magnitude :: number

definition semitoneDistance :: "number \<Rightarrow> number \<Rightarrow> number" where
  "semitoneDistance f g = nabs (ntimes (Num 12) (nlog2 (ndiv f g)))"

text \<open>Two accepted peaks are apart when their frequencies, if both are numbers, are
  at least a semitone from each other; the frequency of an accepted peak is a positive
  number or \<open>NaN\<close>.\<close>

definition apart :: "Peak \<Rightarrow> Peak \<Rightarrow> bool" where
  "apart p q =
     (case Peak.frequency p of
        Num x \<Rightarrow> (case Peak.frequency q of Num y \<Rightarrow> 1 \<le> \<bar>12 * log 2 (x / y)\<bar> | _ \<Rightarrow> True)
      | _ \<Rightarrow> True)"

definition positiveOrNaN :: "Peak \<Rightarrow> bool" where
  "positiveOrNaN p = (case Peak.frequency p of Num x \<Rightarrow> 0 < x | NaN \<Rightarrow> True | _ \<Rightarrow> False)"

definition bothApart :: "Peak \<Rightarrow> Peak \<Rightarrow> bool" where
  "bothApart p q = (positiveOrNaN p \<and> positiveOrNaN q \<and> apart p q)"


text \<open>The loop over the accepted peaks: the first peak closer than a semitone to the
  new frequency ends the loop, and is overwritten if the new value is greater.  The
  result says whether the new peak was far enough from all of them.\<close>

fun updateClose :: "number \<Rightarrow> number \<Rightarrow> Peak list \<Rightarrow> bool \<times> Peak list" where
  "updateClose refinedFrequency peakValue [] = (True, [])"
| "updateClose refinedFrequency peakValue (peak # rest) =
     (if nless (semitoneDistance (Peak.frequency peak) refinedFrequency) (Num 1)
      then (False,
            (if ngreater peakValue (Peak.magnitude peak)
             then \<lparr>Peak.frequency = refinedFrequency, magnitude = peakValue\<rparr>
             else peak) # rest)
      else (fst (updateClose refinedFrequency peakValue rest),
            peak # snd (updateClose refinedFrequency peakValue rest)))"

definition addPeak :: "number \<Rightarrow> number \<Rightarrow> Peak list \<Rightarrow> Peak list" where
  "addPeak refinedFrequency peakValue peaks =
     (if fst (updateClose refinedFrequency peakValue peaks)
      then peaks @ [\<lparr>Peak.frequency = refinedFrequency, magnitude = peakValue\<rparr>]
      else snd (updateClose refinedFrequency peakValue peaks))"

definition processBin ::
  "8 word list \<Rightarrow> 8 word list \<Rightarrow> number \<Rightarrow> number \<Rightarrow> Peak list \<Rightarrow> int \<Rightarrow> Peak list" where
  "processBin frequencyData smoothed binSize minBin peaks i =
     (if isCandidate smoothed minBin i
      then addPeak (refinedFrequencyAt frequencyData binSize
                      (fst (findActualPeak frequencyData smoothed i)))
                   (snd (findActualPeak frequencyData smoothed i)) peaks
      else peaks)"

text \<open>The first pass: the accepted peaks before sorting.\<close>

definition candidatePeaks :: "8 word list \<Rightarrow> number \<Rightarrow> number \<Rightarrow> Peak list" where
  "candidatePeaks frequencyData sampleRate fftSize =
     (let binSize = ndiv sampleRate fftSize;
          minBin = nfloor (ndiv (Num 80) binSize);
          maxBin = nfloor (ndiv (Num 1200) binSize);
          bound = nmin (Num (real (length frequencyData) - 1)) maxBin
      in foldl (processBin frequencyData (smoothedData frequencyData) binSize minBin) []
               (candidateBins minBin bound))"

text \<open>The second pass: a peak is dropped when its frequency is within 3% of 2, 3 or 4
  times the frequency of a peak that was kept; the loop ends when \<open>peakCount\<close> peaks
  are kept.\<close>

definition isHarmonicOf :: "Peak \<Rightarrow> Peak \<Rightarrow> bool" where
  "isHarmonicOf peak strongerPeak =
     list_ex (\<lambda>harmonic.
                nless (nabs (nminus (ndiv (Peak.frequency peak)
                                          (ntimes (Peak.frequency strongerPeak) (Num harmonic)))
                                    (Num 1)))
                      (Num (3 / 100)))
             [2, 3, 4]"

fun filterHarmonics :: "nat \<Rightarrow> Peak list \<Rightarrow> Peak list \<Rightarrow> Peak list" where
  "filterHarmonics peakCount filteredPeaks [] = filteredPeaks"
| "filterHarmonics peakCount filteredPeaks (peak # rest) =
     (if list_ex (isHarmonicOf peak) filteredPeaks
      then filterHarmonics peakCount filteredPeaks rest
      else if peakCount \<le> length (filteredPeaks @ [peak]) then filteredPeaks @ [peak]
      else filterHarmonics peakCount (filteredPeaks @ [peak]) rest)"

definition findFrequencyPeaks :: "8 word list \<Rightarrow> number \<Rightarrow> number \<Rightarrow> nat \<Rightarrow> number list" where
  "findFrequencyPeaks frequencyData sampleRate fftSize peakCount =
     map Peak.frequency
       (filterHarmonics peakCount []
          (arraySort (\<lambda>a b. nminus (Peak.magnitude b) (Peak.magnitude a))
             (candidatePeaks frequencyData sampleRate fftSize)))"

section \<open>The pipeline: \<open>detectChord\<close>\<close>

record Chord =
  name :: "string option"
  formula :: string
  "notes" :: "ChordNote list"
  frequencies :: "number list"

definition emptyChord :: Chord where
  "emptyChord = \<lparr>Chord.name = Some [], formula = [], notes = [], frequencies = []\<rparr>"

text \<open>\<open>detectChord\<close> calls the peak finder with the default \<open>peakCount = 6\<close>.  With fewer
  than two peaks it reads \<open>notes[0].name\<close> when there is a note.\<close>

definition detectChord :: "8 word list \<Rightarrow> number \<Rightarrow> number \<Rightarrow> error + Chord" where
  "detectChord frequencyData sampleRate fftSize =
     (if isDataMostlySilent frequencyData then Inr emptyChord
      else
        let peaks = findFrequencyPeaks frequencyData sampleRate fftSize 6;
            detected = map findClosestNote peaks
        in if length peaks < 2
           then (if 0 < length detected
                 then (case lookup detected 0 of
                         None \<Rightarrow> Inl TypeError
                       | Some first \<Rightarrow>
                           Inr \<lparr>Chord.name = ChordNote.name first, formula = [],
                                notes = detected, frequencies = peaks\<rparr>)
                 else Inr \<lparr>Chord.name = Some [], formula = [], notes = detected,
                           frequencies = peaks\<rparr>)
           else (case identifyChord detected of
                   Inl e \<Rightarrow> Inl e
                 | Inr chord \<Rightarrow>
                     Inr \<lparr>Chord.name = Some (fst chord), formula = snd chord,
                          notes = detected, frequencies = peaks\<rparr>))"

section \<open>Sample inputs\<close>

definition noteC4 :: ChordNote where
  "noteC4 = \<lparr>ChordNote.name = Some ''C'', octave = Num 4, frequency = Num (26163 / 100)\<rparr>"

definition noteD4 :: ChordNote where
  "noteD4 = \<lparr>ChordNote.name = Some ''D'', octave = Num 4, frequency = Num (29366 / 100)\<rparr>"

definition noteE4 :: ChordNote where
  "noteE4 = \<lparr>ChordNote.name = Some ''E'', octave = Num 4, frequency = Num (32963 / 100)\<rparr>"

definition noteG4 :: ChordNote where
  "noteG4 = \<lparr>ChordNote.name = Some ''G'', octave = Num 4, frequency = Num 392\<rparr>"

definition noteA4 :: ChordNote where
  "noteA4 = \<lparr>ChordNote.name = Some ''A'', octave = Num 4, frequency = Num 440\<rparr>"

definition noteC5 :: ChordNote where
  "noteC5 = \<lparr>ChordNote.name = Some ''C'', octave = Num 5, frequency = Num (52325 / 100)\<rparr>"

definition noteE5 :: ChordNote where
  "noteE5 = \<lparr>ChordNote.name = Some ''E'', octave = Num 5, frequency = Num (65925 / 100)\<rparr>"

text \<open>A spectrum of 16 bins with one triangular peak centred on bin 8; with a sample
  rate of 1760 and an FFT size of 32 a bin is 55 Hz wide and bin 8 is 440 Hz.\<close>

definition spectrumOnePeak :: "8 word list" where
  "spectrumOnePeak = [0, 0, 0, 0, 0, 60, 120, 180, 240, 180, 120, 60, 0, 0, 0, 0]"

text \<open>A spectrum of 16 bins with two spikes at bins 3 and 9 and a low value between
  them; with a sample rate of 1280 and an FFT size of 32 a bin is 40 Hz wide.\<close>

definition spectrumDip :: "8 word list" where
  "spectrumDip = [0, 0, 0, 255, 0, 0, 10, 0, 0, 255, 0, 0, 0, 0, 0, 0]"

text \<open>A spectrum of 24 bins: the same two spikes and dip, and two more spikes at bins
  13 and 19 with zeros between them; with a sample rate of 1920 and an FFT size of 48
  a bin is 40 Hz wide.\<close>

definition spectrumFlat :: "8 word list" where
  "spectrumFlat = [0, 0, 0, 255, 0, 0, 10, 0, 0, 255, 0, 0, 0, 255, 0, 0, 0, 0, 0, 255,
                   0, 0, 0, 0]"

text \<open>A silent spectrum.\<close>

definition spectrumSilent :: "8 word list" where
  "spectrumSilent = [0, 0, 0, 0, 0, 0, 0, 0, 0, 0, 0, 0, 0, 0, 0, 0]"

text \<open>A quiet spectrum of 40 bins that is not empty of sound: a spike of 255 at bin 8
  with 70 three bins to either side of it, and zeros elsewhere.  The sum is 395 and the
  mean 9.875; with a sample rate of 4400 and an FFT size of 80 a bin is 55 Hz wide and
  bin 8 is 440 Hz.\<close>

definition spectrumQuiet :: "8 word list" where
  "spectrumQuiet = [0, 0, 0, 0, 0, 70, 0, 0, 255, 0, 0, 70, 0, 0, 0, 0, 0, 0, 0, 0,
                    0, 0, 0, 0, 0, 0, 0, 0, 0, 0, 0, 0, 0, 0, 0, 0, 0, 0, 0, 0]"

section \<open>Properties of the note mapper\<close>

lemma trunc_of_int_div:
  "trunc (of_int m / 12) = (if 0 \<le> m then m div 12 else - ((- m) div 12))"
proof (cases "0 \<le> m")
  case True
  then show ?thesis by (simp add: trunc_def floor_divide_of_int_eq [of m 12, simplified])
next
  case False
  then have neg: "(of_int m :: real) / 12 < 0" by simp
  have "\<lceil>(of_int m :: real) / 12\<rceil> = - \<lfloor>of_int (- m) / (12::real)\<rfloor>"
    by (simp add: ceiling_def)
  also have "\<dots> = - ((- m) div 12)"
    using floor_divide_of_int_eq [of "- m" 12] by simp
  finally show ?thesis using False neg by (simp add: trunc_def)
qed

lemma noteIndex_in_table:
  fixes m :: int
  shows "nrem (nplus (nrem (Num (of_int m)) (Num 12)) (Num 12)) (Num 12) = Num (of_int (m mod 12))"
proof -
  define t where "t = (if 0 \<le> m then m div 12 else - ((- m) div 12))"
  define r where "r = m - 12 * t"
  have r1: "nrem (Num (of_int m)) (Num 12) = Num (of_int r)"
    by (simp add: trunc_of_int_div r_def t_def)
  have rb: "- 12 < r"
  proof (cases "0 \<le> m")
    case True
    have "0 \<le> m mod 12" by simp
    then show ?thesis using True by (simp add: r_def t_def minus_mult_div_eq_mod)
  next
    case False
    have "(- m) mod 12 < 12" by simp
    moreover have "r = - ((- m) - 12 * ((- m) div 12))" using False by (simp add: r_def t_def)
    ultimately show ?thesis by (simp add: minus_mult_div_eq_mod)
  qed
  have "(m - 12 * t) mod 12 = m mod 12"
    using mod_mult_self1 [of m "- t" 12] by (simp add: algebra_simps)
  then have rm: "(r + 12) mod 12 = m mod 12"
    by (simp add: r_def)
  have s: "0 \<le> r + 12" using rb by simp
  have "nrem (Num (of_int (r + 12))) (Num 12) = Num (of_int ((r + 12) - 12 * ((r + 12) div 12)))"
    using s by (simp only: nrem.simps trunc_of_int_div) simp
  also have "(r + 12) - 12 * ((r + 12) div 12) = (r + 12) mod 12"
    by (simp add: minus_mult_div_eq_mod)
  finally have r2: "nrem (Num (of_int (r + 12))) (Num 12) = Num (of_int (m mod 12))"
    using rm by simp
  have "nplus (Num (of_int r)) (Num 12) = Num (of_int (r + 12))" by simp
  then show ?thesis by (simp only: r1 r2)
qed

lemma elementAt_of_int:
  "0 \<le> k \<Longrightarrow> nat k < length xs \<Longrightarrow> elementAt xs (Num (of_int k)) = Some (xs ! nat k)"
  by simp

lemma findClosestNote_positive:
  assumes "0 < r"
  defines "n \<equiv> round (12 * log 2 (r / 440))"
  shows "findClosestNote (Num r) =
           \<lparr>ChordNote.name = Some (noteNames ! nat ((n + 57) mod 12)),
            octave = Num (of_int ((n + 57) div 12)),
            frequency = Num (440 * 2 powr (of_int n / 12))\<rparr>"
proof -
  have guard: "\<not> nle (Num r) (Num 0)" using assms(1) by (simp add: nle_def)
  have steps: "nround (ntimes (Num 12) (nlog2 (ndiv (Num r) (Num 440)))) = Num (of_int n)"
    using assms(1) by (simp add: n_def round_def)
  have sum57: "nplus (Num (of_int n)) (Num 57) = Num (of_int (n + 57))" by simp
  have idx: "elementAt noteNames
               (nrem (nplus (nrem (Num (of_int (n + 57))) (Num 12)) (Num 12)) (Num 12))
             = Some (noteNames ! nat ((n + 57) mod 12))"
    unfolding noteIndex_in_table
    by (rule elementAt_of_int) (simp_all add: noteNames_def nat_less_iff)
  have oct: "nfloor (ndiv (Num (of_int (n + 57))) (Num 12)) = Num (of_int ((n + 57) div 12))"
    using floor_divide_of_int_eq [of "n + 57" 12] by simp
  have fr: "ntimes (Num 440) (npow (2 powr (1 / 12)) (Num (of_int n)))
            = Num (440 * 2 powr (of_int n / 12))"
    by (simp add: powr_powr)
  show ?thesis
    unfolding findClosestNote_def Let_def
    by (simp only: guard if_False steps sum57 idx oct fr)
qed

text \<open>
  \<^bold>\<open>C1\<close> (note round-trip).  The reference frequency of A4 does not come back as the
  pitch class A: \<open>findClosestNote\<close> counts semitones from C0 (the offset 57) but reads
  the name from a table that starts at A, so 440 Hz is given the name at index 9 of that
  table, \<open>F#/Gb\<close>.  The octave (4) and the retuned frequency (440) are as expected.
  At this input every operation of the source is exact, so the value below is the value
  the program computes.
\<close>

theorem findClosestNote_A4:
  "findClosestNote (Num 440) =
     \<lparr>ChordNote.name = Some ''F#/Gb'', octave = Num 4, frequency = Num 440\<rparr>"
  using findClosestNote_positive [of 440] by (simp add: noteNames_def)




section \<open>Properties of the chord matcher\<close>

subsection \<open>The order of the template table\<close>

text \<open>The keys \<open>'7'\<close> and \<open>'6'\<close> of \<open>CHORD_FORMULAS\<close> are array indices, so
  \<open>Object.entries\<close> yields them first, \<open>'6'\<close> before \<open>'7'\<close>; the major template \<open>''\<close>
  is the third entry that the search visits, not the first.\<close>

lemma entries_CHORD_FORMULAS:
  "objectEntries CHORD_FORMULAS =
     [(''6'', [''1'', ''3'', ''5'', ''6'']),
      (''7'', [''1'', ''3'', ''5'', ''b7'']),
      ('''', [''1'', ''3'', ''5'']),
      (''m'', [''1'', ''b3'', ''5'']),
      (''maj7'', [''1'', ''3'', ''5'', ''7'']),
      (''m7'', [''1'', ''b3'', ''5'', ''b7'']),
      (''dim'', [''1'', ''b3'', ''b5'']),
      (''aug'', [''1'', ''3'', ''#5'']),
      (''sus4'', [''1'', ''4'', ''5'']),
      (''sus2'', [''1'', ''2'', ''5'']),
      (''m6'', [''1'', ''b3'', ''5'', ''6''])]"
  by (simp add: objectEntries_def CHORD_FORMULAS_def isArrayIndex_def isDigit_def digitsValue_def)

lemmas matcher_defs =
  includesSlash_def firstPart_def truthy_def orEmpty_def variantsOf_def lookup_def
  sharpNoteNames_def intervalToSemitones_def essentialIntervals_def calculateChordNotes_def
  noteInfoOf_def noteMatched_def intervalFound_def missingEssential_def scoreCandidate_def
  tryTemplate_def rootVariants_def rootsToTry_def nminus_def ngreater_def nmax_def

subsection \<open>The C major triad\<close>

lemma sorted_C_E_G:
  "sortedNoteInfo [noteC4, noteE4, noteG4] = [noteInfoOf noteC4, noteInfoOf noteE4, noteInfoOf noteG4]"
  by (simp add: sortedNoteInfo_def arraySort_def noteInfoOf_def noteC4_def noteE4_def noteG4_def
      nminus_def ngreater_def nmax_def)

lemma search_C_E_G:
  "searchBest [noteInfoOf noteC4, noteInfoOf noteE4, noteInfoOf noteG4] =
     Inr (Num (100 / 26163 * 2 + 100 / 32963 * 2 + 1 / 392 * 2), ''C6'', ''1-3-5-6'')"
  by (simp add: searchBest_def entries_CHORD_FORMULAS matcher_defs noteC4_def noteE4_def
      noteG4_def)

lemma scores_C_E_G:
  "map (\<lambda>entry. scoreCandidate [noteInfoOf noteC4, noteInfoOf noteE4, noteInfoOf noteG4]
                   [Some ''C'', Some ''E'', Some ''G''] ''C'' (snd entry))
       (take 3 (objectEntries CHORD_FORMULAS)) =
     [Inr (Num (100 / 26163 * 2 + 100 / 32963 * 2 + 1 / 392 * 2), 3),
      Inr (Num (100 / 26163 * 2 + 100 / 32963 * 2 + 1 / 392 * 2), 3),
      Inr (Num (100 / 26163 * 2 + 100 / 32963 * 2 + 1 / 392 * 2), 3)]"
  by (simp add: entries_CHORD_FORMULAS matcher_defs noteC4_def noteE4_def noteG4_def)

text \<open>
  \<^bold>\<open>C3\<close> (C major triad).  For the notes C4, E4, G4 the matcher does not answer
  \<open>C\<close> with \<open>1-3-5\<close> but \<open>C6\<close> with \<open>1-3-5-6\<close>.  The templates \<open>6\<close>, \<open>7\<close> and major
  have the same score on these notes (all three notes match, no essential degree is
  missing), the first of them that the search visits keeps the title, and that is
  \<open>6\<close>: see \<open>entries_CHORD_FORMULAS\<close>.
\<close>

theorem identifyChord_C_major_triad:
  "identifyChord [noteC4, noteE4, noteG4] = Inr (''C6'', ''1-3-5-6'')"
proof -
  let ?score = "100 / 26163 * 2 + 100 / 32963 * 2 + 1 / 392 * (2::real)"
  have best: "searchBest (sortedNoteInfo [noteC4, noteE4, noteG4]) =
                Inr (Num ?score, ''C6'', ''1-3-5-6'')"
    unfolding sorted_C_E_G by (rule search_C_E_G)
  have positive: "0 < ?score" by simp
  show ?thesis
    unfolding identifyChord_def using positive by (simp add: best ngreater_def)
qed

subsection \<open>A minor\<close>

lemma sorted_A_C_E:
  "sortedNoteInfo [noteA4, noteC5, noteE5] = [noteInfoOf noteA4, noteInfoOf noteC5, noteInfoOf noteE5]"
  by (simp add: sortedNoteInfo_def arraySort_def noteInfoOf_def noteA4_def noteC5_def noteE5_def
      nminus_def ngreater_def nmax_def)

lemma search_A_C_E:
  "searchBest [noteInfoOf noteA4, noteInfoOf noteC5, noteInfoOf noteE5] =
     Inr (Num (1 / 440 * 2 + 100 / 52325 * 2 + 100 / 65925 * 2), ''Am'', ''1-b3-5'')"
  by (simp add: searchBest_def entries_CHORD_FORMULAS matcher_defs noteA4_def noteC5_def
      noteE5_def)

lemma score_A_minor:
  "scoreCandidate [noteInfoOf noteA4, noteInfoOf noteC5, noteInfoOf noteE5]
     [Some ''A'', Some ''C'', Some ''E''] ''A'' [''1'', ''b3'', ''5''] =
   Inr (Num (1 / 440 * 2 + 100 / 52325 * 2 + 100 / 65925 * 2), 3)"
  by (simp add: matcher_defs noteA4_def noteC5_def noteE5_def)

lemma score_A_major:
  "scoreCandidate [noteInfoOf noteA4, noteInfoOf noteC5, noteInfoOf noteE5]
     [Some ''A'', Some ''C'', Some ''E''] ''A'' [''1'', ''3'', ''5''] =
   Inr (Num (1 / 440 * 2 - 100 / 52325 * (1 / 2) + 100 / 65925 * 2 - 2), 2)"
  by (simp add: matcher_defs noteA4_def noteC5_def noteE5_def)

text \<open>
  \<^bold>\<open>C4\<close> (A minor against A major).  For the notes A4, C5, E5 the matcher answers
  \<open>Am\<close> with \<open>1-b3-5\<close>.  With the root A, the minor template matches all three notes and
  misses no essential degree, so its score is twice the sum of the weights; the major
  template matches two notes, is charged half the weight of the unmatched C and 2 for
  the missing third, and scores below it (and below zero).
\<close>

theorem identifyChord_A_minor:
  "identifyChord [noteA4, noteC5, noteE5] = Inr (''Am'', ''1-b3-5'') \<and>
   identifyChord [noteA4, noteC5, noteE5] \<noteq> Inr (''A'', ''1-3-5'') \<and>
   scoreCandidate (sortedNoteInfo [noteA4, noteC5, noteE5])
     (map NoteInfo.name (sortedNoteInfo [noteA4, noteC5, noteE5])) ''A'' [''1'', ''b3'', ''5''] =
     Inr (Num (2 * (1 / 440) + 2 * (100 / 52325) + 2 * (100 / 65925)), 3) \<and>
   scoreCandidate (sortedNoteInfo [noteA4, noteC5, noteE5])
     (map NoteInfo.name (sortedNoteInfo [noteA4, noteC5, noteE5])) ''A'' [''1'', ''3'', ''5''] =
     Inr (Num (2 * (1 / 440) - (1 / 2) * (100 / 52325) + 2 * (100 / 65925) - 2), 2) \<and>
   nless (Num (2 * (1 / 440) - (1 / 2) * (100 / 52325) + 2 * (100 / 65925) - 2))
         (Num (2 * (1 / 440) + 2 * (100 / 52325) + 2 * (100 / 65925)))"
proof -
  have r: "identifyChord [noteA4, noteC5, noteE5] = Inr (''Am'', ''1-b3-5'')"
    by (simp add: identifyChord_def sorted_A_C_E search_A_C_E ngreater_def)
  have names: "map NoteInfo.name [noteInfoOf noteA4, noteInfoOf noteC5, noteInfoOf noteE5] =
                 [Some ''A'', Some ''C'', Some ''E'']"
    by (simp add: noteInfoOf_def noteA4_def noteC5_def noteE5_def)
  show ?thesis
    unfolding sorted_A_C_E names by (simp add: r score_A_minor score_A_major)
qed

subsection \<open>The search never throws\<close>

lemma scoreNotes_returns:
  "list_all (\<lambda>i. i < length noteInfo) indices \<Longrightarrow>
   \<exists>r. scoreNotes noteInfo baseNotes expectedNotes indices acc = Inr r"
proof (induction indices arbitrary: acc)
  case Nil
  then show ?case by simp
next
  case (Cons i rest)
  then have "lookup noteInfo i = Some (noteInfo ! i)" by (simp add: lookup_def)
  with Cons show ?case by simp
qed

lemma scoreCandidate_returns:
  "\<exists>score matchedNotes.
     scoreCandidate noteInfo (map NoteInfo.name noteInfo) rootName fml = Inr (score, matchedNotes)"
proof -
  have "list_all (\<lambda>i. i < length noteInfo) [0 ..< length (map NoteInfo.name noteInfo)]"
    by (simp add: list_all_iff)
  from scoreNotes_returns [OF this]
  obtain r where
    "scoreNotes noteInfo (map NoteInfo.name noteInfo) (calculateChordNotes rootName fml)
       [0 ..< length (map NoteInfo.name noteInfo)] (Num 0, 0) = Inr r"
    by blast
  then show ?thesis by (cases r) (simp add: scoreCandidate_def)
qed

lemma tryTemplate_returns:
  "\<exists>best'. tryTemplate noteInfo (map NoteInfo.name noteInfo) rootName entry best = Inr best'"
proof -
  obtain score matchedNotes where
    "scoreCandidate noteInfo (map NoteInfo.name noteInfo) rootName (snd entry) =
       Inr (score, matchedNotes)"
    using scoreCandidate_returns by blast
  then have "tryTemplate noteInfo (map NoteInfo.name noteInfo) rootName entry best =
      Inr (if min 2 (length (snd entry)) \<le> matchedNotes \<and> ngreater score (fst best)
           then (score, rootName @ fst entry, joinDash (snd entry)) else best)"
    by (simp add: tryTemplate_def)
  then show ?thesis by blast
qed

lemma forEach_returns:
  "(\<And>x s. \<exists>s'. body x s = Inr s') \<Longrightarrow> \<exists>s'. forEach body xs s = Inr s'"
proof (induction xs arbitrary: s)
  case Nil
  then show ?case by simp
next
  case (Cons x xs)
  from Cons.prems obtain s1 where "body x s = Inr s1" by blast
  with Cons show ?case by simp
qed

lemma searchBest_returns: "\<exists>best. searchBest noteInfo = Inr best"
  unfolding searchBest_def Let_def
  by (intro forEach_returns tryTemplate_returns)

lemma identifyChord_returns:
  "2 \<le> length ns \<Longrightarrow> \<exists>chord. identifyChord ns = Inr chord"
proof -
  assume "2 \<le> length ns"
  then obtain a b rest where ns: "ns = a # b # rest"
    by (cases ns; cases "tl ns") auto
  obtain best where "searchBest (sortedNoteInfo ns) = Inr best"
    using searchBest_returns by blast
  then show ?thesis by (simp add: identifyChord_def ns Let_def)
qed

subsection \<open>The search as one loop over the candidates\<close>

lemma forEach_append:
  "forEach body (xs @ ys) s =
     (case forEach body xs s of Inl e \<Rightarrow> Inl e | Inr s' \<Rightarrow> forEach body ys s')"
  by (induction xs arbitrary: s) (auto split: sum.splits)

lemma forEach_nested:
  "forEach (\<lambda>x. forEach body (g x)) xs s = forEach body (concat (map g xs)) s"
  by (induction xs arbitrary: s) (auto simp: forEach_append split: sum.splits)

lemma forEach_map: "forEach (\<lambda>x. body (h x)) xs s = forEach body (map h xs) s"
  by (induction xs arbitrary: s) (auto split: sum.splits)

lemma searchBest_candidates:
  "searchBest noteInfo =
     forEach (\<lambda>c. tryTemplate noteInfo (map NoteInfo.name noteInfo) (fst c) (snd c))
       (candidates noteInfo) (Num (- 1), [], [])"
proof -
  let ?step = "\<lambda>c. tryTemplate noteInfo (map NoteInfo.name noteInfo) (fst c) (snd c)"
  let ?entries = "objectEntries CHORD_FORMULAS"
  have inner: "forEach (tryTemplate noteInfo (map NoteInfo.name noteInfo) rootName) ?entries =
      forEach ?step (map (\<lambda>entry. (rootName, entry)) ?entries)" for rootName
  proof
    fix s
    show "forEach (tryTemplate noteInfo (map NoteInfo.name noteInfo) rootName) ?entries s =
      forEach ?step (map (\<lambda>entry. (rootName, entry)) ?entries) s"
      using forEach_map [of ?step "\<lambda>entry. (rootName, entry)" ?entries s] by simp
  qed
  have middle: "forEach (\<lambda>rootName. forEach ?step (map (\<lambda>entry. (rootName, entry)) ?entries))
        (rootVariants rootNote) =
      forEach ?step (concat (map (\<lambda>rootName. map (\<lambda>entry. (rootName, entry)) ?entries)
                                (rootVariants rootNote)))" for rootNote
  proof
    fix s
    show "forEach (\<lambda>rootName. forEach ?step (map (\<lambda>entry. (rootName, entry)) ?entries))
        (rootVariants rootNote) s =
      forEach ?step (concat (map (\<lambda>rootName. map (\<lambda>entry. (rootName, entry)) ?entries)
                                (rootVariants rootNote))) s"
      by (rule forEach_nested)
  qed
  show ?thesis
    unfolding searchBest_def candidates_def Let_def inner middle
    by (rule forEach_nested)
qed

text \<open>While no candidate is eligible with a positive score, the best score stays at
  or below zero.\<close>

lemma search_stays_nonpositive:
  "list_all (\<lambda>c. \<not> positiveMatch noteInfo c) cs \<Longrightarrow> \<not> ngreater (fst best) (Num 0) \<Longrightarrow>
   \<exists>best'. forEach (\<lambda>c. tryTemplate noteInfo (map NoteInfo.name noteInfo) (fst c) (snd c))
              cs best = Inr best' \<and>
           \<not> ngreater (fst best') (Num 0)"
proof (induction cs arbitrary: best)
  case Nil
  then show ?case by simp
next
  case (Cons c cs)
  obtain score matchedNotes where sc:
    "scoreCandidate noteInfo (map NoteInfo.name noteInfo) (fst c) (snd (snd c)) =
       Inr (score, matchedNotes)"
    using scoreCandidate_returns by blast
  define best1 where
    "best1 = (if min 2 (length (snd (snd c))) \<le> matchedNotes \<and> ngreater score (fst best)
              then (score, fst c @ fst (snd c), joinDash (snd (snd c))) else best)"
  have step: "tryTemplate noteInfo (map NoteInfo.name noteInfo) (fst c) (snd c) best = Inr best1"
    by (simp add: tryTemplate_def sc best1_def)
  have "\<not> positiveMatch noteInfo c" using Cons.prems(1) by simp
  then have "\<not> (min 2 (length (snd (snd c))) \<le> matchedNotes \<and> ngreater score (Num 0))"
    by (simp add: positiveMatch_def sc)
  then have "\<not> ngreater (fst best1) (Num 0)"
    using Cons.prems(2) by (auto simp: best1_def)
  moreover have "list_all (\<lambda>c. \<not> positiveMatch noteInfo c) cs" using Cons.prems(1) by simp
  ultimately show ?case using Cons.IH [of best1] step by simp
qed

lemma firstPart_without_slash: "\<not> includesSlash s \<Longrightarrow> firstPart s = s"
proof -
  have "CHR ''/'' \<notin> set s \<Longrightarrow> splitSlash s = [s]" by (induction s) auto
  then show "\<not> includesSlash s \<Longrightarrow> firstPart s = s"
    by (simp add: includesSlash_def firstPart_def)
qed

subsection \<open>The fallback\<close>

text \<open>
  \<^bold>\<open>C5\<close> (fallback), as the code has it.  For two or more notes of which no candidate
  is eligible with a positive score, \<open>identifyChord\<close> returns the first spelling of the
  name of the \<^emph>\<open>first input note\<close> (\<open>notes[0]\<close>, in the order the notes were passed),
  with the formula \<open>1\<close>.  The notes sorted by weight are used for the search only.
\<close>

theorem identifyChord_fallback:
  "\<not> somePositiveMatch (n1 # n2 # ns) \<Longrightarrow>
   identifyChord (n1 # n2 # ns) = Inr (firstPart (orEmpty (ChordNote.name n1)), ''1'')"
proof -
  let ?info = "sortedNoteInfo (n1 # n2 # ns)"
  assume "\<not> somePositiveMatch (n1 # n2 # ns)"
  then have none: "list_all (\<lambda>c. \<not> positiveMatch ?info c) (candidates ?info)"
    by (simp add: somePositiveMatch_def list_all_iff list_ex_iff)
  have start: "\<not> ngreater (fst (Num (- 1), [], [])) (Num 0)"
    by (simp add: ngreater_def)
  from search_stays_nonpositive [OF none start]
  obtain best where best: "searchBest ?info = Inr best" "\<not> ngreater (fst best) (Num 0)"
    unfolding searchBest_candidates by blast
  show ?thesis
    using best firstPart_without_slash [of "orEmpty (ChordNote.name n1)"]
    by (simp add: identifyChord_def Let_def)
qed

lemma sorted_D_C:
  "sortedNoteInfo [noteD4, noteC4] = [noteInfoOf noteC4, noteInfoOf noteD4]"
  by (simp add: sortedNoteInfo_def arraySort_def noteInfoOf_def noteC4_def noteD4_def
      nminus_def ngreater_def nmax_def)

lemma no_positive_D_C: "\<not> somePositiveMatch [noteD4, noteC4]"
  unfolding somePositiveMatch_def sorted_D_C
  by (simp add: candidates_def positiveMatch_def entries_CHORD_FORMULAS matcher_defs noteC4_def
      noteD4_def)

lemma name_noteD4: "orEmpty (ChordNote.name noteD4) = ''D''"
  by (simp add: noteD4_def orEmpty_def)

theorem identifyChord_fallback_witness:
  "\<not> somePositiveMatch [noteD4, noteC4] \<and> identifyChord [noteD4, noteC4] = Inr (''D'', ''1'')"
proof -
  have "identifyChord [noteD4, noteC4] = Inr (firstPart (orEmpty (ChordNote.name noteD4)), ''1'')"
    using no_positive_D_C by (rule identifyChord_fallback)
  then have "identifyChord [noteD4, noteC4] = Inr (''D'', ''1'')"
    by (simp add: name_noteD4 firstPart_def)
  then show ?thesis using no_positive_D_C by simp
qed

text \<open>
  The claim as stated fails where the first input note is not the lowest one: for the
  notes D4, C4 (in this order) no candidate has a positive score, the best-weighted
  note is C4 (it is first after sorting by weight, and its weight is the greater), and
  the result is \<open>D\<close>, not \<open>C\<close>.
\<close>

theorem identifyChord_fallback_first_note:
  "\<not> somePositiveMatch [noteD4, noteC4] \<and>
   sortedNoteInfo [noteD4, noteC4] = [noteInfoOf noteC4, noteInfoOf noteD4] \<and>
   nless (NoteInfo.weight (noteInfoOf noteD4)) (NoteInfo.weight (noteInfoOf noteC4)) \<and>
   firstPart (orEmpty (ChordNote.name noteC4)) = ''C'' \<and>
   identifyChord [noteD4, noteC4] = Inr (''D'', ''1'')"
proof -
  have sb: "searchBest [noteInfoOf noteC4, noteInfoOf noteD4] = Inr (Num (- 1), [], [])"
    by (simp add: searchBest_def entries_CHORD_FORMULAS matcher_defs noteC4_def noteD4_def)
  have "identifyChord [noteD4, noteC4] =
          Inr (if includesSlash (orEmpty (ChordNote.name noteD4))
               then firstPart (orEmpty (ChordNote.name noteD4))
               else orEmpty (ChordNote.name noteD4), ''1'')"
    by (simp add: identifyChord_def sorted_D_C sb ngreater_def Let_def)
  then have "identifyChord [noteD4, noteC4] = Inr (''D'', ''1'')"
    by (simp add: name_noteD4 includesSlash_def)
  moreover have "nless (NoteInfo.weight (noteInfoOf noteD4)) (NoteInfo.weight (noteInfoOf noteC4))"
    by (simp add: noteInfoOf_def noteC4_def noteD4_def nmax_def)
  moreover have "firstPart (orEmpty (ChordNote.name noteC4)) = ''C''"
    by (simp add: noteC4_def firstPart_def orEmpty_def)
  ultimately show ?thesis using no_positive_D_C sorted_D_C by simp
qed

section \<open>Properties of the peak finder\<close>

subsection \<open>The threshold\<close>

lemma nless_NaN_right: "nless a NaN = False"
  by (cases a) simp_all

lemma nexp_range: "nexp x = NaN \<or> nexp x = PosInf \<or> (\<exists>e. nexp x = Num e \<and> 0 \<le> e)"
  by (cases x) simp_all

lemma getThreshold_range:
  "getThreshold minBin bin = NaN \<or> getThreshold minBin bin = PosInf \<or>
   (\<exists>t. getThreshold minBin bin = Num t \<and> 15 \<le> t)"
  using nexp_range [of "ndiv (nneg bin) (ntimes minBin (Num 2))"]
  by (auto simp: getThreshold_def signedInf_def)

lemma below_threshold: "s \<le> 15 \<Longrightarrow> nless (getThreshold minBin bin) (Num s) = False"
  using getThreshold_range [of minBin bin] by auto

lemma above_threshold:
  assumes "45 < s" "0 < m" "0 \<le> b"
  shows "nless (getThreshold (Num m) (Num b)) (Num s) = True"
proof -
  have "exp (- (b / (m * 2))) \<le> 1" using assms by simp
  then have e: "15 + 30 * exp (- (b / (m * 2))) < s" using assms(1) by linarith
  have "getThreshold (Num m) (Num b) = Num (15 + 30 * exp (- (b / (m * 2))))"
    using assms by (simp add: getThreshold_def)
  then show ?thesis using e by simp
qed

text \<open>The two combinations of loop bounds that \<open>candidateBins\<close> leaves out do not
  arise.\<close>

lemma bound_not_PosInf: "nmin (Num l) maxBin \<noteq> PosInf"
  by (cases maxBin) (simp_all add: nmin_def)

lemma minBin_not_NegInf: "nfloor (ndiv (Num 80) binSize) \<noteq> NegInf"
  by (cases binSize) (simp_all add: signedInf_def)

subsection \<open>The magnitude that is recorded\<close>

lemma nless_trans: "nless a b \<Longrightarrow> nless b c \<Longrightarrow> nless a c"
  by (cases a; cases b; cases c) simp_all

lemma nless_after: "\<not> nless p a \<Longrightarrow> nless p q \<Longrightarrow> \<not> nless q a"
  by (cases a; cases p; cases q) simp_all

text \<open>The result of the search when a raw value of the window exceeds the smoothed
  value at the candidate bin: the bin of the greatest raw value of the window, and that
  raw value.\<close>

lemma findActualPeak_raw:
  assumes "ngreater (byteAt frequencyData (i - 1)) (byteAt smoothed i) \<or>
           ngreater (byteAt frequencyData i) (byteAt smoothed i) \<or>
           ngreater (byteAt frequencyData (i + 1)) (byteAt smoothed i)"
  shows "ngreater (snd (findActualPeak frequencyData smoothed i)) (byteAt smoothed i) \<and>
         fst (findActualPeak frequencyData smoothed i) \<in> {i - 1, i, i + 1} \<and>
         snd (findActualPeak frequencyData smoothed i) =
           byteAt frequencyData (fst (findActualPeak frequencyData smoothed i))"
  using assms unfolding findActualPeak_def ngreater_def
  by (auto dest: nless_trans)

lemma nless_irrefl: "\<not> nless a a"
  by (cases a) simp_all

lemma scan_greatest:
  fixes frequencyData :: "8 word list"
  defines "step \<equiv> \<lambda>acc j. if ngreater (byteAt frequencyData j) (snd acc)
                           then (j, byteAt frequencyData j) else acc"
  shows "j \<in> set js \<or> \<not> ngreater (byteAt frequencyData j) (snd acc) \<Longrightarrow>
         \<not> ngreater (byteAt frequencyData j) (snd (foldl step acc js))"
proof (induction js arbitrary: acc)
  case Nil
  then show ?case by simp
next
  case (Cons k js)
  show ?case
  proof (cases "j \<in> set js")
    case True
    then show ?thesis using Cons.IH [of "step acc k"] by simp
  next
    case False
    have "\<not> ngreater (byteAt frequencyData j) (snd (step acc k))"
    proof (cases "j = k")
      case True
      then show ?thesis by (simp add: step_def ngreater_def nless_irrefl)
    next
      case differs: False
      with False Cons.prems have "\<not> nless (snd acc) (byteAt frequencyData j)"
        by (simp add: ngreater_def)
      then show ?thesis
        by (auto simp: step_def ngreater_def dest: nless_after)
    qed
    then show ?thesis using Cons.IH [of "step acc k"] by simp
  qed
qed

lemma findActualPeak_greatest:
  "\<not> ngreater (byteAt frequencyData (i - 1)) (snd (findActualPeak frequencyData smoothed i)) \<and>
   \<not> ngreater (byteAt frequencyData i) (snd (findActualPeak frequencyData smoothed i)) \<and>
   \<not> ngreater (byteAt frequencyData (i + 1)) (snd (findActualPeak frequencyData smoothed i))"
  unfolding findActualPeak_def
  by (intro conjI scan_greatest) simp_all

text \<open>The result of the search when no raw value of the window exceeds the smoothed
  value at the candidate bin: the candidate bin and its smoothed value.\<close>

lemma findActualPeak_smoothed:
  assumes "\<not> ngreater (byteAt frequencyData (i - 1)) (byteAt smoothed i)"
    and "\<not> ngreater (byteAt frequencyData i) (byteAt smoothed i)"
    and "\<not> ngreater (byteAt frequencyData (i + 1)) (byteAt smoothed i)"
  shows "findActualPeak frequencyData smoothed i = (i, byteAt smoothed i)"
  using assms unfolding findActualPeak_def by simp

lemma updateClose_peaks:
  "list_all P peaks \<Longrightarrow> P \<lparr>Peak.frequency = f, magnitude = v\<rparr> \<Longrightarrow>
   list_all P (snd (updateClose f v peaks))"
  by (induction peaks) auto

lemma addPeak_peaks:
  "list_all P peaks \<Longrightarrow> P \<lparr>Peak.frequency = f, magnitude = v\<rparr> \<Longrightarrow>
   list_all P (addPeak f v peaks)"
  using updateClose_peaks [of P peaks f v] by (simp add: addPeak_def)

text \<open>Every peak of the first pass was written for a candidate bin, with the two
  results of the search around that bin: the frequency refined around \<open>peakBin\<close>, and
  \<open>peakValue\<close>.\<close>

lemma firstPass_peaks:
  fixes frequencyData smoothed :: "8 word list" and binSize minBin :: number
  defines "P \<equiv> \<lambda>p. \<exists>i. isCandidate smoothed minBin i \<and>
             p = \<lparr>Peak.frequency = refinedFrequencyAt frequencyData binSize
                                      (fst (findActualPeak frequencyData smoothed i)),
                  magnitude = snd (findActualPeak frequencyData smoothed i)\<rparr>"
  shows "list_all P peaks \<Longrightarrow>
         list_all P (foldl (processBin frequencyData smoothed binSize minBin) peaks bins)"
proof (induction bins arbitrary: peaks)
  case Nil
  then show ?case by simp
next
  case (Cons i bins)
  have "list_all P (processBin frequencyData smoothed binSize minBin peaks i)"
  proof (cases "isCandidate smoothed minBin i")
    case True
    then have "P \<lparr>Peak.frequency = refinedFrequencyAt frequencyData binSize
                                     (fst (findActualPeak frequencyData smoothed i)),
                  magnitude = snd (findActualPeak frequencyData smoothed i)\<rparr>"
      unfolding P_def by blast
    then show ?thesis
      using Cons.prems True by (simp add: processBin_def addPeak_peaks)
  next
    case False
    then show ?thesis using Cons.prems by (simp add: processBin_def)
  qed
  then show ?case using Cons.IH by simp
qed

text \<open>
  What the first pass records, for every spectrum.  An accepted peak comes from a
  candidate bin \<open>i\<close> of the smoothed spectrum and a bin \<open>peakBin\<close> among \<open>i - 1\<close>, \<open>i\<close>,
  \<open>i + 1\<close>, around which its frequency is refined.  When a raw value of these three
  bins exceeds the smoothed value at \<open>i\<close>, the magnitude is the raw value at \<open>peakBin\<close>,
  and no raw value of the three bins is greater.  When none does, \<open>peakBin\<close> is \<open>i\<close> and
  the magnitude is the smoothed value at \<open>i\<close>.
\<close>

lemma accepted_peak_recorded:
  fixes frequencyData :: "8 word list"
  defines "smoothed \<equiv> smoothedData frequencyData"
  assumes p: "p \<in> set (candidatePeaks frequencyData sampleRate fftSize)"
  shows "\<exists>i peakBin.
           isCandidate smoothed (nfloor (ndiv (Num 80) (ndiv sampleRate fftSize))) i \<and>
           peakBin \<in> {i - 1, i, i + 1} \<and>
           findActualPeak frequencyData smoothed i = (peakBin, Peak.magnitude p) \<and>
           Peak.frequency p = refinedFrequencyAt frequencyData (ndiv sampleRate fftSize) peakBin \<and>
           \<not> ngreater (byteAt frequencyData (i - 1)) (Peak.magnitude p) \<and>
           \<not> ngreater (byteAt frequencyData i) (Peak.magnitude p) \<and>
           \<not> ngreater (byteAt frequencyData (i + 1)) (Peak.magnitude p) \<and>
           (if ngreater (byteAt frequencyData (i - 1)) (byteAt smoothed i) \<or>
               ngreater (byteAt frequencyData i) (byteAt smoothed i) \<or>
               ngreater (byteAt frequencyData (i + 1)) (byteAt smoothed i)
            then Peak.magnitude p = byteAt frequencyData peakBin \<and>
                 ngreater (Peak.magnitude p) (byteAt smoothed i)
            else peakBin = i \<and> Peak.magnitude p = byteAt smoothed i)"
proof -
  let ?minBin = "nfloor (ndiv (Num 80) (ndiv sampleRate fftSize))"
  let ?binSize = "ndiv sampleRate fftSize"
  have "list_all (\<lambda>p. \<exists>i. isCandidate smoothed ?minBin i \<and>
             p = \<lparr>Peak.frequency = refinedFrequencyAt frequencyData ?binSize
                                      (fst (findActualPeak frequencyData smoothed i)),
                  magnitude = snd (findActualPeak frequencyData smoothed i)\<rparr>)
          (candidatePeaks frequencyData sampleRate fftSize)"
    unfolding candidatePeaks_def Let_def smoothed_def
    by (rule firstPass_peaks) simp
  with p obtain i where cand: "isCandidate smoothed ?minBin i"
    and rec: "p = \<lparr>Peak.frequency = refinedFrequencyAt frequencyData ?binSize
                                      (fst (findActualPeak frequencyData smoothed i)),
                  magnitude = snd (findActualPeak frequencyData smoothed i)\<rparr>"
    by (auto simp: list_all_iff)
  define peakBin where "peakBin = fst (findActualPeak frequencyData smoothed i)"
  have mag: "Peak.magnitude p = snd (findActualPeak frequencyData smoothed i)"
    and freq: "Peak.frequency p = refinedFrequencyAt frequencyData ?binSize peakBin"
    by (simp_all add: rec peakBin_def)
  have pair: "findActualPeak frequencyData smoothed i = (peakBin, Peak.magnitude p)"
    by (simp add: mag peakBin_def)
  have greatest:
    "\<not> ngreater (byteAt frequencyData (i - 1)) (Peak.magnitude p) \<and>
     \<not> ngreater (byteAt frequencyData i) (Peak.magnitude p) \<and>
     \<not> ngreater (byteAt frequencyData (i + 1)) (Peak.magnitude p)"
    unfolding mag by (rule findActualPeak_greatest)
  show ?thesis
  proof (cases "ngreater (byteAt frequencyData (i - 1)) (byteAt smoothed i) \<or>
                ngreater (byteAt frequencyData i) (byteAt smoothed i) \<or>
                ngreater (byteAt frequencyData (i + 1)) (byteAt smoothed i)")
    case True
    from findActualPeak_raw [OF True] have
      "ngreater (Peak.magnitude p) (byteAt smoothed i)" "peakBin \<in> {i - 1, i, i + 1}"
      "Peak.magnitude p = byteAt frequencyData peakBin"
      unfolding mag peakBin_def by blast+
    with cand pair freq greatest True show ?thesis by (intro exI [of _ i] exI [of _ peakBin]) simp
  next
    case False
    then have "findActualPeak frequencyData smoothed i = (i, byteAt smoothed i)"
      using findActualPeak_smoothed [of frequencyData i smoothed] by simp
    then have "peakBin = i" "Peak.magnitude p = byteAt smoothed i"
      by (simp_all add: mag peakBin_def)
    with cand pair freq greatest False show ?thesis by (intro exI [of _ i] exI [of _ peakBin]) simp
  qed
qed

subsection \<open>A peak whose recorded magnitude is a smoothed value\<close>

lemma smoothed_spectrumDip:
  "smoothedData spectrumDip = [0, 0, 0, 37, 37, 37, 74, 37, 37, 37, 36, 36, 36, 0, 0, 0]"
  by (simp add: smoothedData_def spectrumDip_def windowSize_def upt_rec)

lemma candidatePeaks_spectrumDip:
  "candidatePeaks spectrumDip (Num 1280) (Num 32) =
     [\<lparr>Peak.frequency = Num 240, magnitude = Num 74\<rparr>]"
  unfolding candidatePeaks_def Let_def smoothed_spectrumDip
  apply (simp add: nmin_def spectrumDip_def upto_rec1)
  apply (simp add: processBin_def isCandidate_def byteAt_def below_threshold above_threshold
      ngreater_def)
  apply (simp add: findActualPeak_def refinedFrequencyAt_def addPeak_def byteAt_def ngreater_def
      nminus_def nmax_def nmin_def)
  done

text \<open>
  \<^bold>\<open>C9\<close> (amplitude of a peak).  The search for "the actual peak" looks for the
  greatest raw value of the bins \<open>i - 1\<close>, \<open>i\<close>, \<open>i + 1\<close>, but starts its running maximum
  at the \<^emph>\<open>smoothed\<close> value of bin \<open>i\<close>, which then stands as the magnitude whenever no
  raw value of the three bins exceeds it.  On \<open>spectrumDip\<close> (two spikes of 255 at the
  bins 3 and 9, and 10 at bin 6 between them; not a silent spectrum) bin 6 is the one
  candidate: its smoothed value 74 exceeds those of the bins 5 and 7, and the threshold.
  The raw values of the bins 5, 6, 7 are 0, 10, 0, so \<open>peakBin\<close> stays 6 and the
  frequency is refined around it to 240, and the peak is recorded with the magnitude 74,
  the smoothed value, where the raw value at its bin is 10.  Where a raw value of the
  three bins does exceed the smoothed value, the magnitude is the raw value at
  \<open>peakBin\<close> (\<open>accepted_peak_recorded\<close>).
\<close>

theorem recorded_magnitude_smoothed:
  "\<not> isDataMostlySilent spectrumDip \<and>
   candidatePeaks spectrumDip (Num 1280) (Num 32) =
     [\<lparr>Peak.frequency = Num 240, magnitude = Num 74\<rparr>] \<and>
   findFrequencyPeaks spectrumDip (Num 1280) (Num 32) 6 = [Num 240] \<and>
   isCandidate (smoothedData spectrumDip) (Num 2) 6 \<and>
   findActualPeak spectrumDip (smoothedData spectrumDip) 6 = (6, Num 74) \<and>
   refinedFrequencyAt spectrumDip (Num 40) 6 = Num 240 \<and>
   byteAt (smoothedData spectrumDip) 6 = Num 74 \<and>
   byteAt spectrumDip 5 = Num 0 \<and> byteAt spectrumDip 6 = Num 10 \<and> byteAt spectrumDip 7 = Num 0"
proof -
  have "\<not> isDataMostlySilent spectrumDip"
    by (simp add: isDataMostlySilent_def spectrumDip_def)
  moreover have "findFrequencyPeaks spectrumDip (Num 1280) (Num 32) 6 = [Num 240]"
    by (simp add: findFrequencyPeaks_def candidatePeaks_spectrumDip arraySort_def)
  moreover have "isCandidate (smoothedData spectrumDip) (Num 2) 6"
    unfolding smoothed_spectrumDip
    by (simp add: isCandidate_def byteAt_def ngreater_def above_threshold)
  moreover have "findActualPeak spectrumDip (smoothedData spectrumDip) 6 = (6, Num 74)"
    unfolding smoothed_spectrumDip
    by (simp add: findActualPeak_def byteAt_def spectrumDip_def ngreater_def)
  moreover have "refinedFrequencyAt spectrumDip (Num 40) 6 = Num 240"
    by (simp add: refinedFrequencyAt_def byteAt_def spectrumDip_def nminus_def nmax_def nmin_def)
  moreover have "byteAt (smoothedData spectrumDip) 6 = Num 74"
    unfolding smoothed_spectrumDip by (simp add: byteAt_def)
  moreover have "byteAt spectrumDip 5 = Num 0 \<and> byteAt spectrumDip 6 = Num 10 \<and>
                 byteAt spectrumDip 7 = Num 0"
    by (simp add: byteAt_def spectrumDip_def)
  ultimately show ?thesis using candidatePeaks_spectrumDip by simp
qed

subsection \<open>Peaks that are numbers are a semitone apart\<close>

text \<open>
  The refined frequency of a peak bin is \<open>NaN\<close>, or lies within half a bin of the
  bin's own frequency.  So it does not decrease from one peak bin to a later one, and
  it is positive from bin 1 on.
\<close>

lemma clamp_range:
  "nmax (Num (- (1 / 2))) (nmin (Num (1 / 2)) x) = NaN \<or>
   (\<exists>c. nmax (Num (- (1 / 2))) (nmin (Num (1 / 2)) x) = Num c \<and> - (1 / 2) \<le> c \<and> c \<le> 1 / 2)"
proof (cases x)
  case (Num a)
  have "nmax (Num (- (1 / 2))) (nmin (Num (1 / 2)) (Num a)) = Num (max (- (1 / 2)) (min (1 / 2) a))"
    by (simp add: nmin_def nmax_def max_def min_def)
  moreover have "- (1 / 2) \<le> max (- (1 / 2)) (min (1 / 2) a)"
    and "max (- (1 / 2)) (min (1 / 2) a) \<le> 1 / 2"
    by simp_all
  ultimately show ?thesis unfolding Num by blast
next
  case PosInf
  have "nmax (Num (- (1 / 2))) (nmin (Num (1 / 2)) PosInf) = Num (1 / 2)"
    by (simp add: nmin_def nmax_def)
  then show ?thesis unfolding PosInf by (intro disjI2 exI [of _ "1 / 2"]) simp
next
  case NegInf
  have "nmax (Num (- (1 / 2))) (nmin (Num (1 / 2)) NegInf) = Num (- (1 / 2))"
    by (simp add: nmin_def nmax_def)
  then show ?thesis unfolding NegInf by (intro disjI2 exI [of _ "- (1 / 2)"]) simp
next
  case NaN
  then show ?thesis by (simp add: nmin_def nmax_def)
qed

lemma refinedFrequencyAt_cases:
  "refinedFrequencyAt frequencyData (Num bs) b = NaN \<or>
   (\<exists>c. refinedFrequencyAt frequencyData (Num bs) b = Num ((of_int b + c) * bs) \<and>
        - (1 / 2) \<le> c \<and> c \<le> 1 / 2)"
proof -
  define x where
    "x = ndiv (ntimes (Num (1 / 2))
                 (nminus (byteAt frequencyData (b - 1)) (byteAt frequencyData (b + 1))))
              (nplus (nminus (byteAt frequencyData (b - 1))
                        (ntimes (Num 2) (byteAt frequencyData b)))
                 (byteAt frequencyData (b + 1)))"
  have r: "refinedFrequencyAt frequencyData (Num bs) b =
             ntimes (nplus (Num (of_int b)) (nmax (Num (- (1 / 2))) (nmin (Num (1 / 2)) x)))
                    (Num bs)"
    by (simp add: refinedFrequencyAt_def Let_def x_def)
  from clamp_range [of x] show ?thesis
  proof
    assume "nmax (Num (- (1 / 2))) (nmin (Num (1 / 2)) x) = NaN"
    then show ?thesis by (simp add: r)
  next
    assume "\<exists>c. nmax (Num (- (1 / 2))) (nmin (Num (1 / 2)) x) = Num c \<and> - (1 / 2) \<le> c \<and> c \<le> 1 / 2"
    then obtain c where "nmax (Num (- (1 / 2))) (nmin (Num (1 / 2)) x) = Num c"
      "- (1 / 2) \<le> c" "c \<le> 1 / 2" by blast
    then show ?thesis by (auto simp: r)
  qed
qed

lemma refinedFrequencyAt_mono:
  assumes "0 < bs" "b \<le> b'"
    and "refinedFrequencyAt frequencyData (Num bs) b = Num x"
    and "refinedFrequencyAt frequencyData (Num bs) b' = Num y"
  shows "x \<le> y"
proof (cases "b = b'")
  case True
  with assms show ?thesis by simp
next
  case False
  with assms(2) have step: "of_int b + 1 \<le> (of_int b' :: real)" by linarith
  from refinedFrequencyAt_cases [of frequencyData bs b] assms(3)
  obtain c where x: "x = (of_int b + c) * bs" and c: "c \<le> 1 / 2" by auto
  from refinedFrequencyAt_cases [of frequencyData bs b'] assms(4)
  obtain c' where y: "y = (of_int b' + c') * bs" and c': "- (1 / 2) \<le> c'" by auto
  have "of_int b + c \<le> of_int b' + c'" using step c c' by linarith
  then show ?thesis using assms(1) by (simp add: x y)
qed

lemma refinedFrequencyAt_positive:
  assumes "0 < bs" "1 \<le> b" and "refinedFrequencyAt frequencyData (Num bs) b = Num x"
  shows "0 < x"
proof -
  from refinedFrequencyAt_cases [of frequencyData bs b] assms(3)
  obtain c where x: "x = (of_int b + c) * bs" and c: "- (1 / 2) \<le> c" by auto
  have "1 \<le> (of_int b :: real)" using assms(2) by simp
  then have "0 < of_int b + c" using c by linarith
  then show ?thesis using assms(1) by (simp add: x)
qed

text \<open>Two neighbouring bins are not both candidates, a candidate bin is at least
  bin 3, and the peak bin of a candidate is the candidate bin or a neighbour.\<close>

lemma nless_asym: "nless a b \<Longrightarrow> \<not> nless b a"
  by (cases a; cases b) simp_all

lemma candidate_not_adjacent:
  "isCandidate smoothed minBin i \<Longrightarrow> \<not> isCandidate smoothed minBin (i + 1)"
  by (auto simp: isCandidate_def ngreater_def dest: nless_asym)

lemma byteAt_smoothed_low:
  "i < 3 \<Longrightarrow> byteAt (smoothedData frequencyData) i = Num 0 \<or>
             byteAt (smoothedData frequencyData) i = NaN"
  by (auto simp: byteAt_def smoothedData_def windowSize_def nat_less_iff)

lemma candidate_from_3:
  assumes "isCandidate (smoothedData frequencyData) minBin i"
  shows "3 \<le> i"
proof (rule ccontr)
  assume "\<not> 3 \<le> i"
  then have "i < 3" by simp
  from byteAt_smoothed_low [OF this, of frequencyData] show False
    using assms below_threshold [of 0 minBin "Num (of_int i)"]
    by (auto simp: isCandidate_def ngreater_def nless_NaN_right)
qed

lemma findActualPeak_bin:
  "fst (findActualPeak frequencyData smoothed i) \<in> {i - 1, i, i + 1}"
  unfolding findActualPeak_def by simp

text \<open>The distance test of the source on two positive frequencies.\<close>

lemma semitoneDistance_positive:
  "0 < x \<Longrightarrow> 0 < y \<Longrightarrow> semitoneDistance (Num x) (Num y) = Num \<bar>12 * log 2 (x / y)\<bar>"
  by (simp add: semitoneDistance_def)

lemma apart_sym: "apart p q \<Longrightarrow> positiveOrNaN p \<Longrightarrow> positiveOrNaN q \<Longrightarrow> apart q p"
proof -
  have "\<bar>12 * log 2 (y / x)\<bar> = \<bar>12 * log 2 (x / y)\<bar>" if "0 < x" "0 < y" for x y :: real
    using that by (simp add: log_divide)
  then show "apart p q \<Longrightarrow> positiveOrNaN p \<Longrightarrow> positiveOrNaN q \<Longrightarrow> apart q p"
    by (auto simp: apart_def positiveOrNaN_def split: number.splits)
qed

lemma apart_after_replacement:
  fixes px y z :: real
  assumes "0 < px" "0 < y" "0 < z" "px \<le> y" "z \<le> y"
    and "\<bar>12 * log 2 (px / y)\<bar> < 1" and "1 \<le> \<bar>12 * log 2 (px / z)\<bar>"
  shows "1 \<le> \<bar>12 * log 2 (y / z)\<bar>"
proof -
  have a: "log 2 px \<le> log 2 y" and b: "log 2 z \<le> log 2 y"
    using assms by simp_all
  have "\<bar>12 * (log 2 px - log 2 y)\<bar> < 1" "1 \<le> \<bar>12 * (log 2 px - log 2 z)\<bar>"
    using assms by (simp_all add: log_divide)
  then have "1 \<le> \<bar>12 * (log 2 y - log 2 z)\<bar>"
    using a b by argo
  then show ?thesis using assms by (simp add: log_divide)
qed

text \<open>Adding a peak whose frequency is not below the frequencies already accepted
  keeps the accepted peaks a semitone apart.\<close>

lemma updateClose_far:
  "fst (updateClose f v peaks) \<Longrightarrow>
   snd (updateClose f v peaks) = peaks \<and>
   list_all (\<lambda>p. \<not> nless (semitoneDistance (Peak.frequency p) f) (Num 1)) peaks"
  by (induction peaks) (auto split: if_splits)

lemma updateClose_set:
  "set (snd (updateClose f v peaks)) \<subseteq> insert \<lparr>Peak.frequency = f, magnitude = v\<rparr> (set peaks)"
  by (induction peaks) auto

lemma not_close_apart:
  assumes "\<not> nless (semitoneDistance (Peak.frequency p) f) (Num 1)" "positiveOrNaN p"
    and "f = NaN \<or> (\<exists>y. f = Num y \<and> 0 < y)"
  shows "apart p \<lparr>Peak.frequency = f, magnitude = v\<rparr>"
  using assms
  by (auto simp: apart_def positiveOrNaN_def semitoneDistance_positive split: number.splits)

lemma updateClose_apart:
  assumes "sorted_wrt apart peaks" "list_all positiveOrNaN peaks"
    and "f = NaN \<or> (\<exists>y. f = Num y \<and> 0 < y \<and>
           list_all (\<lambda>p. case Peak.frequency p of Num x \<Rightarrow> x \<le> y | _ \<Rightarrow> True) peaks)"
  shows "sorted_wrt apart (snd (updateClose f v peaks))"
  using assms
proof (induction peaks)
  case Nil
  then show ?case by simp
next
  case (Cons p rest)
  have rest: "sorted_wrt apart (snd (updateClose f v rest))"
    using Cons by auto
  show ?case
  proof (cases "nless (semitoneDistance (Peak.frequency p) f) (Num 1)")
    case close: True
    show ?thesis
    proof (cases "ngreater v (Peak.magnitude p)")
      case True
      from Cons.prems(2) have "positiveOrNaN p" by simp
      with close obtain px where px: "Peak.frequency p = Num px" and pos: "0 < px"
        by (cases "Peak.frequency p") (auto simp: positiveOrNaN_def semitoneDistance_def)
      from close Cons.prems(3) obtain y where y: "f = Num y"
        by (auto simp: semitoneDistance_def px)
      from Cons.prems(3) y px have ypos: "0 < y" and le: "px \<le> y"
        and others: "list_all (\<lambda>q. case Peak.frequency q of Num x \<Rightarrow> x \<le> y | _ \<Rightarrow> True) rest"
        by auto
      from close have near: "\<bar>12 * log 2 (px / y)\<bar> < 1"
        using pos ypos by (simp add: px y semitoneDistance_positive)
      have "apart \<lparr>Peak.frequency = f, magnitude = v\<rparr> q" if q: "q \<in> set rest" for q
      proof (cases "Peak.frequency q")
        case (Num z)
        from Cons.prems(2) q Num have zpos: "0 < z"
          by (auto simp: positiveOrNaN_def list_all_iff)
        from others q Num have zle: "z \<le> y" by (auto simp: list_all_iff)
        from Cons.prems(1) q have "apart p q" by auto
        then have "1 \<le> \<bar>12 * log 2 (px / z)\<bar>" by (simp add: apart_def px Num)
        from apart_after_replacement [OF pos ypos zpos le zle near this]
        show ?thesis by (simp add: apart_def y Num)
      qed (simp_all add: apart_def y)
      then show ?thesis using close True Cons.prems(1) by auto
    next
      case False
      then show ?thesis using close Cons.prems(1) by simp
    qed
  next
    case far: False
    have "apart p q" if q: "q \<in> set (snd (updateClose f v rest))" for q
    proof (cases "q \<in> set rest")
      case True
      then show ?thesis using Cons.prems(1) by auto
    next
      case False
      then have "q = \<lparr>Peak.frequency = f, magnitude = v\<rparr>"
        using q updateClose_set [of f v rest] by auto
      moreover have "positiveOrNaN p" using Cons.prems(2) by simp
      moreover have "f = NaN \<or> (\<exists>y. f = Num y \<and> 0 < y)" using Cons.prems(3) by auto
      ultimately show ?thesis using far not_close_apart by blast
    qed
    then show ?thesis using far rest by auto
  qed
qed

lemma addPeak_apart:
  assumes "sorted_wrt apart peaks" "list_all positiveOrNaN peaks"
    and "f = NaN \<or> (\<exists>y. f = Num y \<and> 0 < y \<and>
           list_all (\<lambda>p. case Peak.frequency p of Num x \<Rightarrow> x \<le> y | _ \<Rightarrow> True) peaks)"
  shows "sorted_wrt apart (addPeak f v peaks)"
proof (cases "fst (updateClose f v peaks)")
  case True
  have fpos: "f = NaN \<or> (\<exists>y. f = Num y \<and> 0 < y)" using assms(3) by auto
  from updateClose_far [OF True]
  have "list_all (\<lambda>p. \<not> nless (semitoneDistance (Peak.frequency p) f) (Num 1)) peaks" by simp
  then have "\<forall>p\<in>set peaks. apart p \<lparr>Peak.frequency = f, magnitude = v\<rparr>"
    using assms(2) fpos not_close_apart by (auto simp: list_all_iff)
  then show ?thesis using True assms(1) by (simp add: addPeak_def sorted_wrt_append)
next
  case False
  then show ?thesis using updateClose_apart [OF assms] by (simp add: addPeak_def)
qed

lemma addPeak_set:
  "set (addPeak f v peaks) \<subseteq> insert \<lparr>Peak.frequency = f, magnitude = v\<rparr> (set peaks)"
  using updateClose_set [of f v peaks] by (auto simp: addPeak_def)

text \<open>The first pass visits the bins in increasing order, so the peak bins, and with
  them the refined frequencies that are numbers, do not decrease; the accepted peaks
  stay a semitone apart.\<close>

lemma firstPass_apart:
  fixes frequencyData :: "8 word list"
  assumes bs: "0 < bs"
  shows "sorted_wrt (<) bins \<Longrightarrow> sorted_wrt apart peaks \<Longrightarrow> list_all positiveOrNaN peaks \<Longrightarrow>
     (\<forall>p\<in>set peaks. \<forall>x. Peak.frequency p = Num x \<longrightarrow>
        (\<exists>b. refinedFrequencyAt frequencyData (Num bs) b = Num x \<and>
             (\<forall>i\<in>set bins. isCandidate (smoothedData frequencyData) minBin i \<longrightarrow> b \<le> i - 1))) \<Longrightarrow>
     sorted_wrt apart
       (foldl (processBin frequencyData (smoothedData frequencyData) (Num bs) minBin) peaks bins) \<and>
     list_all positiveOrNaN
       (foldl (processBin frequencyData (smoothedData frequencyData) (Num bs) minBin) peaks bins)"
proof (induction bins arbitrary: peaks)
  case Nil
  then show ?case by simp
next
  case (Cons i rest)
  let ?sm = "smoothedData frequencyData"
  let ?F = "refinedFrequencyAt frequencyData (Num bs)"
  have later: "\<forall>i'\<in>set rest. i < i'" and rest_sorted: "sorted_wrt (<) rest"
    using Cons.prems(1) by simp_all
  show ?case
  proof (cases "isCandidate ?sm minBin i")
    case False
    then have same: "processBin frequencyData ?sm (Num bs) minBin peaks i = peaks"
      by (simp add: processBin_def)
    have "\<forall>p\<in>set peaks. \<forall>x. Peak.frequency p = Num x \<longrightarrow>
        (\<exists>b. ?F b = Num x \<and> (\<forall>i\<in>set rest. isCandidate ?sm minBin i \<longrightarrow> b \<le> i - 1))"
      using Cons.prems(4) by (meson list.set_intros(2))
    from Cons.IH [OF rest_sorted Cons.prems(2) Cons.prems(3) this]
    show ?thesis by (simp add: same)
  next
    case cand: True
    define pb where "pb = fst (findActualPeak frequencyData ?sm i)"
    define v where "v = snd (findActualPeak frequencyData ?sm i)"
    define f where "f = ?F pb"
    define peaks' where "peaks' = addPeak f v peaks"
    have step: "processBin frequencyData ?sm (Num bs) minBin peaks i = peaks'"
      using cand by (simp add: processBin_def peaks'_def f_def v_def pb_def)
    have pb_range: "i - 1 \<le> pb" "pb \<le> i + 1"
      using findActualPeak_bin [of frequencyData ?sm i] by (auto simp: pb_def)
    have "3 \<le> i" using cand by (rule candidate_from_3)
    then have pb_pos: "1 \<le> pb" using pb_range by simp
    have below: "x \<le> y" if "p \<in> set peaks" "Peak.frequency p = Num x" "f = Num y" for p x y
    proof -
      from Cons.prems(4) that(1,2) cand obtain b where b: "?F b = Num x" "b \<le> i - 1"
        by (metis list.set_intros(1))
      then have "b \<le> pb" using pb_range by simp
      from refinedFrequencyAt_mono [OF bs this b(1)] that(3) show ?thesis by (simp add: f_def)
    qed
    have fcase: "f = NaN \<or> (\<exists>y. f = Num y \<and> 0 < y \<and>
           list_all (\<lambda>p. case Peak.frequency p of Num x \<Rightarrow> x \<le> y | _ \<Rightarrow> True) peaks)"
    proof (cases "f = NaN")
      case True
      then show ?thesis by simp
    next
      case False
      then obtain y where y: "f = Num y"
        using refinedFrequencyAt_cases [of frequencyData bs pb] by (auto simp: f_def)
      then have "0 < y"
        using refinedFrequencyAt_positive [OF bs pb_pos] by (simp add: f_def)
      moreover have "list_all (\<lambda>p. case Peak.frequency p of Num x \<Rightarrow> x \<le> y | _ \<Rightarrow> True) peaks"
        using below y by (auto simp: list_all_iff split: number.splits)
      ultimately show ?thesis using y by simp
    qed
    have sorted': "sorted_wrt apart peaks'"
      unfolding peaks'_def using Cons.prems(2) Cons.prems(3) fcase by (rule addPeak_apart)
    have new_ok: "positiveOrNaN \<lparr>Peak.frequency = f, magnitude = v\<rparr>"
      using fcase by (auto simp: positiveOrNaN_def)
    have members: "set peaks' \<subseteq> insert \<lparr>Peak.frequency = f, magnitude = v\<rparr> (set peaks)"
      unfolding peaks'_def by (rule addPeak_set)
    have pos': "list_all positiveOrNaN peaks'"
      using members new_ok Cons.prems(3) by (auto simp: list_all_iff)
    have inv': "\<forall>p\<in>set peaks'. \<forall>x. Peak.frequency p = Num x \<longrightarrow>
        (\<exists>b. ?F b = Num x \<and> (\<forall>i\<in>set rest. isCandidate ?sm minBin i \<longrightarrow> b \<le> i - 1))"
    proof (intro ballI allI impI)
      fix p x
      assume p: "p \<in> set peaks'" and x: "Peak.frequency p = Num x"
      show "\<exists>b. ?F b = Num x \<and> (\<forall>i\<in>set rest. isCandidate ?sm minBin i \<longrightarrow> b \<le> i - 1)"
      proof (cases "p \<in> set peaks")
        case True
        with Cons.prems(4) x show ?thesis by (meson list.set_intros(2))
      next
        case False
        with p members have "p = \<lparr>Peak.frequency = f, magnitude = v\<rparr>" by auto
        with x have fx: "?F pb = Num x" by (simp add: f_def)
        have "pb \<le> i' - 1" if "i' \<in> set rest" "isCandidate ?sm minBin i'" for i'
        proof -
          have "i < i'" using later that(1) by simp
          moreover have "i' \<noteq> i + 1" using candidate_not_adjacent [OF cand] that(2) by auto
          ultimately show ?thesis using pb_range by simp
        qed
        with fx show ?thesis by blast
      qed
    qed
    from Cons.IH [OF rest_sorted sorted' pos' inv'] show ?thesis by (simp add: step)
  qed
qed

lemma candidateBins_increasing: "sorted_wrt (<) (candidateBins a b)"
  by (cases a; cases b) simp_all

text \<open>The loop of the first pass has an iteration only for a positive, finite bin
  size.\<close>

lemma no_bins_for_infinite_binSize: "candidateBins (Num 0) (nmin (Num l) (Num 0)) = []"
proof (cases "0 < l")
  case True
  then show ?thesis by (simp add: nmin_def)
next
  case False
  then have "\<lceil>l\<rceil> \<le> 0" by (simp add: ceiling_le_iff)
  then show ?thesis using False by (simp add: nmin_def)
qed

lemma bins_need_positive_binSize:
  assumes "candidateBins (nfloor (ndiv (Num 80) binSize))
             (nmin (Num l) (nfloor (ndiv (Num 1200) binSize))) \<noteq> []"
  shows "\<exists>bs. binSize = Num bs \<and> 0 < bs"
proof (cases binSize)
  case (Num bs)
  show ?thesis
  proof (cases "0 < bs")
    case True
    with Num show ?thesis by simp
  next
    case False
    show ?thesis
    proof (cases "bs = 0")
      case True
      with assms Num show ?thesis by (simp add: signedInf_def)
    next
      case nonzero: False
      with False have neg: "bs < 0" by simp
      have "1200 / bs \<le> 80 / bs" using neg by (simp add: divide_le_cancel)
      then have fl: "\<lfloor>1200 / bs\<rfloor> \<le> \<lfloor>80 / bs\<rfloor>" by (rule floor_mono)
      define m where "m = min l (of_int \<lfloor>1200 / bs\<rfloor>)"
      have bound: "nmin (Num l) (nfloor (ndiv (Num 1200) (Num bs))) = Num m"
        using nonzero by (simp add: nmin_def m_def min_def)
      have "m \<le> of_int \<lfloor>80 / bs\<rfloor>" using fl by (simp add: m_def min_le_iff_disj)
      then have "\<lceil>m\<rceil> \<le> \<lfloor>80 / bs\<rfloor>" by (simp add: ceiling_le_iff)
      then have "candidateBins (nfloor (ndiv (Num 80) (Num bs))) (Num m) = []"
        using nonzero by simp
      with assms Num bound show ?thesis by simp
    qed
  qed
next
  case PosInf
  with assms show ?thesis using no_bins_for_infinite_binSize [of l] by simp
next
  case NegInf
  with assms show ?thesis using no_bins_for_infinite_binSize [of l] by simp
next
  case NaN
  with assms show ?thesis by simp
qed

lemma candidatePeaks_apart:
  "sorted_wrt apart (candidatePeaks frequencyData sampleRate fftSize) \<and>
   list_all positiveOrNaN (candidatePeaks frequencyData sampleRate fftSize)"
proof -
  define binSize where "binSize = ndiv sampleRate fftSize"
  define minBin where "minBin = nfloor (ndiv (Num 80) binSize)"
  define bins where
    "bins = candidateBins minBin
              (nmin (Num (real (length frequencyData) - 1)) (nfloor (ndiv (Num 1200) binSize)))"
  have unfold: "candidatePeaks frequencyData sampleRate fftSize =
      foldl (processBin frequencyData (smoothedData frequencyData) binSize minBin) [] bins"
    by (simp add: candidatePeaks_def Let_def binSize_def minBin_def bins_def)
  show ?thesis
  proof (cases "bins = []")
    case True
    then show ?thesis by (simp add: unfold)
  next
    case False
    then obtain bs where bs: "binSize = Num bs" "0 < bs"
      using bins_need_positive_binSize unfolding bins_def minBin_def by blast
    have "sorted_wrt (<) bins" unfolding bins_def by (rule candidateBins_increasing)
    from firstPass_apart [OF bs(2) this, of "[]" frequencyData minBin]
    show ?thesis by (simp add: unfold bs(1))
  qed
qed

text \<open>Sorting and the harmonic filter rearrange and drop peaks; they keep them
  apart.\<close>

lemma insertSorted_set: "set (insertSorted cmp x ys) = insert x (set ys)"
  by (induction ys) auto

lemma insertSorted_sorted_wrt:
  assumes "\<And>a b. R a b \<Longrightarrow> R b a"
  shows "sorted_wrt R (x # ys) \<Longrightarrow> sorted_wrt R (insertSorted cmp x ys)"
  using assms by (induction ys) (auto simp: insertSorted_set)

lemma arraySort_set: "set (arraySort cmp xs) = set xs"
  by (induction xs) (simp_all add: arraySort_def insertSorted_set)

lemma arraySort_sorted_wrt:
  assumes "\<And>a b. R a b \<Longrightarrow> R b a"
  shows "sorted_wrt R xs \<Longrightarrow> sorted_wrt R (arraySort cmp xs)"
proof (induction xs)
  case Nil
  then show ?case by (simp add: arraySort_def)
next
  case (Cons x xs)
  then have "sorted_wrt R (x # arraySort cmp xs)"
    by (simp add: arraySort_set)
  then have "sorted_wrt R (insertSorted cmp x (arraySort cmp xs))"
    using assms by (rule insertSorted_sorted_wrt [rotated])
  then show ?case by (simp add: arraySort_def)
qed

lemma filterHarmonics_sorted_wrt:
  "sorted_wrt R (kept @ peaks) \<Longrightarrow> sorted_wrt R (filterHarmonics peakCount kept peaks)"
proof (induction peaks arbitrary: kept)
  case Nil
  then show ?case by simp
next
  case (Cons p rest)
  have skip: "sorted_wrt R (kept @ rest)"
    using Cons.prems by (auto simp: sorted_wrt_append)
  have keep: "sorted_wrt R ((kept @ [p]) @ rest)" "sorted_wrt R (kept @ [p])"
    using Cons.prems by (auto simp: sorted_wrt_append)
  show ?case
    using Cons.IH [OF skip] Cons.IH [OF keep(1)] keep(2) by simp
qed

text \<open>
  What the code guarantees about the separation of peaks: any two entries of the
  result of \<open>findFrequencyPeaks\<close> that are numbers are positive and at least a semitone
  apart.  (In this statement the logarithm is exact.)
\<close>

lemma finite_peaks_separated:
  assumes "i < j" "j < length (findFrequencyPeaks frequencyData sampleRate fftSize peakCount)"
    and "findFrequencyPeaks frequencyData sampleRate fftSize peakCount ! i = Num x"
    and "findFrequencyPeaks frequencyData sampleRate fftSize peakCount ! j = Num y"
  shows "0 < x \<and> 0 < y \<and> 1 \<le> \<bar>12 * log 2 (x / y)\<bar>"
proof -
  let ?first = "candidatePeaks frequencyData sampleRate fftSize"
  let ?sorted = "arraySort (\<lambda>a b. nminus (Peak.magnitude b) (Peak.magnitude a)) ?first"
  let ?kept = "filterHarmonics peakCount [] ?sorted"
  have sym: "\<And>a b. bothApart a b \<Longrightarrow> bothApart b a"
    by (auto simp: bothApart_def intro: apart_sym)
  have "sorted_wrt bothApart ?first"
    using candidatePeaks_apart [of frequencyData sampleRate fftSize]
    by (auto simp: bothApart_def list_all_iff intro: sorted_wrt_mono_rel [of ?first apart])
  then have "sorted_wrt bothApart ?sorted"
    using sym by (rule arraySort_sorted_wrt [rotated])
  then have kept: "sorted_wrt bothApart ?kept"
    by (intro filterHarmonics_sorted_wrt) simp
  have fs: "findFrequencyPeaks frequencyData sampleRate fftSize peakCount = map Peak.frequency ?kept"
    by (simp add: findFrequencyPeaks_def)
  have j: "j < length ?kept" using assms(2) by (simp add: fs)
  from sorted_wrt_nth_less [OF kept assms(1) j]
  have "bothApart (?kept ! i) (?kept ! j)" .
  moreover have "Peak.frequency (?kept ! i) = Num x" "Peak.frequency (?kept ! j) = Num y"
    using assms j by (simp_all add: fs)
  ultimately show ?thesis
    by (simp add: bothApart_def positiveOrNaN_def apart_def)
qed

subsection \<open>A peak without a frequency\<close>

lemma smoothed_spectrumFlat:
  "smoothedData spectrumFlat =
     [0, 0, 0, 37, 37, 37, 74, 37, 37, 37, 72, 72, 72, 36, 36, 36, 72, 36, 36, 36, 36, 0, 0, 0]"
  by (simp add: smoothedData_def spectrumFlat_def windowSize_def upt_rec)

lemma candidatePeaks_spectrumFlat:
  "candidatePeaks spectrumFlat (Num 1920) (Num 48) =
     [\<lparr>Peak.frequency = Num 240, magnitude = Num 74\<rparr>,
      \<lparr>Peak.frequency = NaN, magnitude = Num 72\<rparr>]"
  unfolding candidatePeaks_def Let_def smoothed_spectrumFlat
  apply (simp add: nmin_def spectrumFlat_def upto_rec1)
  apply (simp add: processBin_def isCandidate_def byteAt_def below_threshold above_threshold
      ngreater_def)
  apply (simp add: findActualPeak_def refinedFrequencyAt_def addPeak_def byteAt_def ngreater_def
      nminus_def nmax_def nmin_def semitoneDistance_def)
  done

text \<open>
  \<^bold>\<open>C2\<close> (peaks a semitone apart).  On \<open>spectrumFlat\<close> the peak finder returns two
  entries of which the second is \<open>NaN\<close>: the bins 15, 16, 17 around the candidate bin 16
  hold the same value, the parabolic interpolation divides \<open>0\<close> by \<open>0\<close>, and neither
  the clamp nor the test \<open>semitoneDistance < 1\<close> nor the harmonic filter stops a \<open>NaN\<close>.
  The distance between the two returned entries is \<open>NaN\<close>, which is not \<open>>= 1\<close>.
  The separation itself is sound: between entries that are numbers it always holds
  (\<open>finite_peaks_separated\<close>); what breaks it is the entry that is not a number.
\<close>

theorem findFrequencyPeaks_NaN:
  "findFrequencyPeaks spectrumFlat (Num 1920) (Num 48) 6 = [Num 240, NaN] \<and>
   \<not> isDataMostlySilent spectrumFlat \<and>
   refinedFrequencyAt spectrumFlat (Num 40) 16 = NaN \<and>
   semitoneDistance (Num 240) NaN = NaN \<and>
   \<not> nge (semitoneDistance (Num 240) NaN) (Num 1)"
proof -
  have "findFrequencyPeaks spectrumFlat (Num 1920) (Num 48) 6 = [Num 240, NaN]"
    by (simp add: findFrequencyPeaks_def candidatePeaks_spectrumFlat arraySort_def
        isHarmonicOf_def nminus_def ngreater_def)
  moreover have "\<not> isDataMostlySilent spectrumFlat"
    by (simp add: isDataMostlySilent_def spectrumFlat_def)
  moreover have "refinedFrequencyAt spectrumFlat (Num 40) 16 = NaN"
    by (simp add: refinedFrequencyAt_def byteAt_def spectrumFlat_def nminus_def nmax_def nmin_def)
  moreover have "semitoneDistance (Num 240) NaN = NaN"
    by (simp add: semitoneDistance_def)
  ultimately show ?thesis by (simp add: nge_def nle_def)
qed

subsection \<open>Silence\<close>

lemma foldl_add_unat:
  "foldl (\<lambda>acc x. acc + unat x) a (xs :: 8 word list) = a + sum_list (map unat xs)"
  by (induction xs arbitrary: a) simp_all

lemma isDataMostlySilent_iff:
  "isDataMostlySilent frequencyData \<longleftrightarrow>
     frequencyData \<noteq> [] \<and>
     real (sum_list (map unat frequencyData)) / real (length frequencyData) < 10"
  by (cases "frequencyData = []")
     (simp_all add: isDataMostlySilent_def foldl_add_unat)

lemma byteAt_smoothed_zero:
  assumes "list_all (\<lambda>x. x = 0) frequencyData"
  shows "byteAt (smoothedData frequencyData) i = Num 0 \<or> byteAt (smoothedData frequencyData) i = NaN"
proof (cases "0 \<le> i \<and> i < int (length frequencyData)")
  case True
  then have len: "nat i < length frequencyData" by (simp add: nat_less_iff)
  have zero: "\<And>j. j < length frequencyData \<Longrightarrow> unat (frequencyData ! j) = 0"
    using assms by (simp add: list_all_length)
  have sum0: "sum_list (map (\<lambda>j. unat (frequencyData ! j)) [a ..< b]) = 0"
    if "b \<le> length frequencyData" for a b
  proof -
    have "\<forall>n\<in>set (map (\<lambda>j. unat (frequencyData ! j)) [a ..< b]). n = 0"
      using that zero by auto
    then show ?thesis by (simp only: sum_list_eq_0_iff)
  qed
  have "smoothedData frequencyData ! nat i =
          (if 3 \<le> nat i \<and> nat i + 3 < length frequencyData
           then of_nat (sum_list (map (\<lambda>j. unat (frequencyData ! j)) [nat i - 3 ..< nat i + 3 + 1])
                        div 7)
           else 0)"
    using len by (simp add: smoothedData_def windowSize_def)
  also have "\<dots> = 0"
  proof (cases "3 \<le> nat i \<and> nat i + 3 < length frequencyData")
    case True
    have s: "sum_list (map (\<lambda>j. unat (frequencyData ! j)) [nat i - 3 ..< nat i + 3 + 1]) = 0"
      by (rule sum0) (use True in simp)
    show ?thesis unfolding s by simp
  next
    case False
    then show ?thesis by (simp only: if_False)
  qed
  finally show ?thesis using True by (simp add: byteAt_def smoothedData_def)
next
  case False
  then show ?thesis by (auto simp: byteAt_def smoothedData_def)
qed

lemma no_candidate_in_zeros:
  assumes "list_all (\<lambda>x. x = 0) frequencyData"
  shows "\<not> isCandidate (smoothedData frequencyData) minBin i"
  using byteAt_smoothed_zero [OF assms, of i] below_threshold [of 0 minBin "Num (of_int i)"]
  by (auto simp: isCandidate_def ngreater_def nless_NaN_right)

lemma candidatePeaks_zeros:
  assumes "list_all (\<lambda>x. x = 0) frequencyData"
  shows "candidatePeaks frequencyData sampleRate fftSize = []"
proof -
  have "foldl (processBin frequencyData (smoothedData frequencyData) binSize minBin) [] bins = []"
    for binSize minBin bins
    by (induction bins) (simp_all add: processBin_def no_candidate_in_zeros [OF assms])
  then show ?thesis by (simp add: candidatePeaks_def Let_def)
qed

lemma detectChord_no_peaks:
  "findFrequencyPeaks frequencyData sampleRate fftSize 6 = [] \<Longrightarrow>
   detectChord frequencyData sampleRate fftSize = Inr emptyChord"
  by (simp add: detectChord_def emptyChord_def)

lemma smoothed_spectrumQuiet:
  "smoothedData spectrumQuiet =
     [0, 0, 0, 10, 10, 46, 46, 46, 56, 46, 46, 46, 10, 10, 10, 0, 0, 0, 0, 0,
      0, 0, 0, 0, 0, 0, 0, 0, 0, 0, 0, 0, 0, 0, 0, 0, 0, 0, 0, 0]"
  by (simp add: smoothedData_def spectrumQuiet_def windowSize_def upt_rec)

lemma candidatePeaks_spectrumQuiet:
  "candidatePeaks spectrumQuiet (Num 4400) (Num 80) =
     [\<lparr>Peak.frequency = Num 440, magnitude = Num 255\<rparr>]"
  unfolding candidatePeaks_def Let_def smoothed_spectrumQuiet
  apply (simp add: nmin_def spectrumQuiet_def upto_rec1)
  apply (simp add: processBin_def isCandidate_def byteAt_def below_threshold above_threshold
      ngreater_def)
  apply (simp add: findActualPeak_def refinedFrequencyAt_def addPeak_def byteAt_def ngreater_def
      nminus_def nmax_def nmin_def)
  done

lemma findFrequencyPeaks_spectrumQuiet:
  "findFrequencyPeaks spectrumQuiet (Num 4400) (Num 80) 6 = [Num 440]"
  by (simp add: findFrequencyPeaks_def candidatePeaks_spectrumQuiet arraySort_def)

lemma mean_spectrumQuiet:
  "real (sum_list (map unat spectrumQuiet)) / real (length spectrumQuiet) < 10"
  by (simp add: spectrumQuiet_def)

text \<open>
  \<^bold>\<open>C7\<close> (silence fast path), as the code has it.  The silence test is the first
  statement of \<open>detectChord\<close>, not a part of the peak finder: a non-empty spectrum
  whose mean is below 10 is mostly silent, and \<open>detectChord\<close> returns the empty chord
  for it before the peak finder is called, so no peak search takes place and the
  sequence of frequencies of the result is empty.  The peak finder has no test of the
  mean.  For a spectrum whose every bin is 0 it returns the empty sequence, whatever the
  sample rate, FFT size and peak count, because no bin is a candidate, and \<open>detectChord\<close>
  returns the empty chord.
\<close>

theorem silence_fast_path:
  "(frequencyData \<noteq> [] \<and>
    real (sum_list (map unat frequencyData)) / real (length frequencyData) < 10 \<longrightarrow>
      isDataMostlySilent frequencyData \<and>
      detectChord frequencyData sampleRate fftSize = Inr emptyChord) \<and>
   (list_all (\<lambda>x. x = 0) frequencyData \<longrightarrow>
      findFrequencyPeaks frequencyData sampleRate fftSize peakCount = [] \<and>
      detectChord frequencyData sampleRate fftSize = Inr emptyChord) \<and>
   emptyChord = \<lparr>Chord.name = Some [], formula = [], notes = [], frequencies = []\<rparr>"
proof (intro conjI impI)
  show "emptyChord = \<lparr>Chord.name = Some [], formula = [], notes = [], frequencies = []\<rparr>"
    by (simp add: emptyChord_def)
next
  assume quiet: "frequencyData \<noteq> [] \<and>
    real (sum_list (map unat frequencyData)) / real (length frequencyData) < 10"
  then show "isDataMostlySilent frequencyData" by (simp add: isDataMostlySilent_iff)
  then show "detectChord frequencyData sampleRate fftSize = Inr emptyChord"
    by (simp add: detectChord_def)
next
  assume zeros: "list_all (\<lambda>x. x = 0) frequencyData"
  show none: "findFrequencyPeaks frequencyData sampleRate fftSize peakCount = []" for peakCount
    by (simp add: findFrequencyPeaks_def candidatePeaks_zeros [OF zeros] arraySort_def)
  show "detectChord frequencyData sampleRate fftSize = Inr emptyChord"
    using none [of 6] by (rule detectChord_no_peaks)
qed

text \<open>Two instances: the silent spectrum, for which both parts apply, and the quiet
  spectrum with a spike, which is mostly silent without being zero everywhere.\<close>

theorem silence_fast_path_witness:
  "spectrumSilent \<noteq> [] \<and>
   real (sum_list (map unat spectrumSilent)) / real (length spectrumSilent) < 10 \<and>
   list_all (\<lambda>x. x = 0) spectrumSilent \<and>
   isDataMostlySilent spectrumSilent \<and>
   findFrequencyPeaks spectrumSilent (Num 44100) (Num 2048) 6 = [] \<and>
   detectChord spectrumSilent (Num 44100) (Num 2048) = Inr emptyChord \<and>
   spectrumQuiet \<noteq> [] \<and>
   real (sum_list (map unat spectrumQuiet)) / real (length spectrumQuiet) < 10 \<and>
   isDataMostlySilent spectrumQuiet \<and>
   detectChord spectrumQuiet (Num 4400) (Num 80) = Inr emptyChord"
proof -
  have a: "spectrumSilent \<noteq> [] \<and>
           real (sum_list (map unat spectrumSilent)) / real (length spectrumSilent) < 10"
    by (simp add: spectrumSilent_def)
  have b: "list_all (\<lambda>x. x = 0) spectrumSilent"
    by (simp add: spectrumSilent_def)
  have c: "spectrumQuiet \<noteq> []" by (simp add: spectrumQuiet_def)
  from silence_fast_path [of spectrumSilent "Num 44100" "Num 2048" 6]
       silence_fast_path [of spectrumQuiet "Num 4400" "Num 80" 6] a b c mean_spectrumQuiet
  show ?thesis by blast
qed

text \<open>
  The claim as stated fails for the peak finder: on \<open>spectrumQuiet\<close>, a non-empty
  spectrum whose mean 9.875 is below the threshold, \<open>findFrequencyPeaks\<close> carries out
  its search and returns the peak at 440 Hz.  It is \<open>detectChord\<close> that answers this
  spectrum with the empty chord.
\<close>

theorem silence_not_in_peak_finder:
  "spectrumQuiet \<noteq> [] \<and>
   real (sum_list (map unat spectrumQuiet)) / real (length spectrumQuiet) < 10 \<and>
   isDataMostlySilent spectrumQuiet \<and>
   findFrequencyPeaks spectrumQuiet (Num 4400) (Num 80) 6 = [Num 440] \<and>
   findFrequencyPeaks spectrumQuiet (Num 4400) (Num 80) 6 \<noteq> [] \<and>
   detectChord spectrumQuiet (Num 4400) (Num 80) = Inr emptyChord"
proof -
  have nonempty: "spectrumQuiet \<noteq> []" by (simp add: spectrumQuiet_def)
  then have silent: "isDataMostlySilent spectrumQuiet"
    using mean_spectrumQuiet by (simp add: isDataMostlySilent_iff)
  then have "detectChord spectrumQuiet (Num 4400) (Num 80) = Inr emptyChord"
    by (simp add: detectChord_def)
  with nonempty silent mean_spectrumQuiet findFrequencyPeaks_spectrumQuiet
  show ?thesis by simp
qed

subsection \<open>One peak\<close>

text \<open>
  \<^bold>\<open>C10\<close> (one peak).  When the spectrum is not mostly silent and the peak finder
  returns exactly one frequency, \<open>detectChord\<close> returns the name of that frequency's
  note as \<open>findClosestNote\<close> gives it, both spellings included, with the empty
  formula; \<open>identifyChord\<close> takes no part in it.
\<close>

theorem detectChord_one_peak:
  "\<not> isDataMostlySilent frequencyData \<Longrightarrow>
   findFrequencyPeaks frequencyData sampleRate fftSize 6 = [f] \<Longrightarrow>
   detectChord frequencyData sampleRate fftSize =
     Inr \<lparr>Chord.name = ChordNote.name (findClosestNote f), formula = [],
          notes = [findClosestNote f], frequencies = [f]\<rparr>"
proof -
  assume audible: "\<not> isDataMostlySilent frequencyData"
    and one: "findFrequencyPeaks frequencyData sampleRate fftSize 6 = [f]"
  have few: "length [f] < 2" by simp
  have first: "lookup (map findClosestNote [f]) 0 = Some (findClosestNote f)"
    by (simp add: lookup_def)
  show ?thesis
    unfolding detectChord_def Let_def one
    using audible few first by simp
qed

lemma smoothed_spectrumOnePeak:
  "smoothedData spectrumOnePeak = [0, 0, 0, 25, 51, 85, 111, 128, 137, 128, 111, 85, 51, 0, 0, 0]"
  by (simp add: smoothedData_def spectrumOnePeak_def windowSize_def upt_rec)

lemma candidatePeaks_spectrumOnePeak:
  "candidatePeaks spectrumOnePeak (Num 1760) (Num 32) =
     [\<lparr>Peak.frequency = Num 440, magnitude = Num 240\<rparr>]"
  unfolding candidatePeaks_def Let_def smoothed_spectrumOnePeak
  apply (simp add: nmin_def spectrumOnePeak_def upto_rec1)
  apply (simp add: processBin_def isCandidate_def byteAt_def below_threshold above_threshold
      ngreater_def)
  apply (simp add: findActualPeak_def refinedFrequencyAt_def addPeak_def byteAt_def ngreater_def
      nminus_def nmax_def nmin_def)
  done

lemma findFrequencyPeaks_spectrumOnePeak:
  "findFrequencyPeaks spectrumOnePeak (Num 1760) (Num 32) 6 = [Num 440]"
  by (simp add: findFrequencyPeaks_def candidatePeaks_spectrumOnePeak arraySort_def)

lemma not_silent_spectrumOnePeak: "\<not> isDataMostlySilent spectrumOnePeak"
  by (simp add: isDataMostlySilent_def spectrumOnePeak_def)

lemma note_of_440:
  "findClosestNote (Num 440) =
     \<lparr>ChordNote.name = Some ''F#/Gb'', octave = Num 4, frequency = Num 440\<rparr>"
  using findClosestNote_positive [of 440] by (simp add: noteNames_def)

text \<open>The witness: one peak at 440 Hz.  The name is the dual spelling that the note
  mapper gives this frequency, and the formula is empty, where \<open>identifyChord\<close> on the
  same note gives the first spelling and the formula \<open>1\<close>.\<close>

theorem detectChord_one_peak_witness:
  "\<not> isDataMostlySilent spectrumOnePeak \<and>
   findFrequencyPeaks spectrumOnePeak (Num 1760) (Num 32) 6 = [Num 440] \<and>
   detectChord spectrumOnePeak (Num 1760) (Num 32) =
     Inr \<lparr>Chord.name = Some ''F#/Gb'', formula = [],
          notes = [\<lparr>ChordNote.name = Some ''F#/Gb'', octave = Num 4, frequency = Num 440\<rparr>],
          frequencies = [Num 440]\<rparr> \<and>
   identifyChord [findClosestNote (Num 440)] = Inr (''F#'', ''1'')"
proof -
  have "identifyChord [findClosestNote (Num 440)] = Inr (''F#'', ''1'')"
    by (simp add: note_of_440 identifyChord_def firstPart_def)
  then show ?thesis
    using detectChord_one_peak [OF not_silent_spectrumOnePeak findFrequencyPeaks_spectrumOnePeak]
    by (simp add: note_of_440 not_silent_spectrumOnePeak findFrequencyPeaks_spectrumOnePeak)
qed

subsection \<open>The pipeline always returns a chord\<close>

text \<open>
  \<^bold>\<open>C6\<close> (total, structurally valid output).  For every spectrum, the empty one
  included, and every sample rate and FFT size, finite or not, \<open>detectChord\<close> returns
  a chord and throws nothing; the notes of the chord are the results of
  \<open>findClosestNote\<close> on its frequencies, in the same order, so the two sequences have
  the same length.
\<close>

theorem detectChord_returns:
  "\<exists>chord. detectChord frequencyData sampleRate fftSize = Inr chord \<and>
           Chord.notes chord = map findClosestNote (Chord.frequencies chord) \<and>
           length (Chord.notes chord) = length (Chord.frequencies chord)"
proof (cases "isDataMostlySilent frequencyData")
  case True
  then show ?thesis by (simp add: detectChord_def emptyChord_def)
next
  case False
  define peaks where "peaks = findFrequencyPeaks frequencyData sampleRate fftSize 6"
  show ?thesis
  proof (cases "length peaks < 2")
    case True
    then show ?thesis
      using False by (cases peaks) (simp_all add: detectChord_def peaks_def [symmetric] lookup_def)
  next
    case long: False
    then have "2 \<le> length (map findClosestNote peaks)" by simp
    then obtain chord where "identifyChord (map findClosestNote peaks) = Inr chord"
      using identifyChord_returns by blast
    then show ?thesis
      using False long by (simp add: detectChord_def peaks_def [symmetric])
  qed
qed

end
